theory Spec2Isabelle
  imports Complex_Main
begin

section \<open>Python values\<close>

text \<open>
  The OCR adapter (\<^verbatim>\<open>ocr_research/image_ocr_reader.py\<close>) inspects the engine's raw result
  by duck typing, so the raw result is modelled as a value of a universal type of Python
  values: \<^verbatim>\<open>None\<close>, booleans, integers, floats, strings, lists, tuples and dictionaries.

  \<^item> A Python \<^verbatim>\<open>float\<close> is a binary64 number. It is written as a rational number and
    stands for the binary64 value nearest to it (ties to even), as a decimal literal does
    in Python; every finite float is written by its own value. Every operation reads its
    arguments through this rounding and rounds its result (\<open>binary64\<close>, \<open>fadd\<close>,
    \<open>fdiv\<close>). The model covers the finite floats: infinities, NaN and the sign of zero
    are not modelled, and \<open>finite64\<close> says that a value lies in the finite range.
  \<^item> A Python \<^verbatim>\<open>str\<close> is modelled by its UTF-8 encoding, one \<^typ>\<open>char\<close> per byte; where
    the code counts or enumerates characters, the bytes are grouped into code points
    (\<open>utf8_chars\<close>).
  \<^item> A dictionary is an association list with pairwise different keys.
  \<^item> Objects outside this universe (numpy arrays, user classes) are not modelled.
\<close>

datatype pyerror =
  FileNotFoundError | ValueError | TypeError | IndexError | KeyError | OverflowError | EngineError

datatype pyval =
    PyNone
  | PyBool bool
  | PyInt int
  | PyFloat rat
  | PyStr string
  | PyList "pyval list"
  | PyTuple "pyval list"
  | PyDict "(pyval \<times> pyval) list"

text \<open>The parser behind \<^verbatim>\<open>float(s)\<close> for a string \<open>s\<close> belongs to the interpreter; it is a
  parameter of the model (\<open>None\<close> where Python raises \<^verbatim>\<open>ValueError\<close>). Strings that
  Python reads as an infinity or as NaN (\<^verbatim>\<open>"inf"\<close>, \<^verbatim>\<open>"nan"\<close>, \<^verbatim>\<open>"1e999"\<close>) are outside the
  model, as these floats are.\<close>

type_synonym float_parser = "string \<Rightarrow> rat option"

subsection \<open>Binary64 arithmetic\<close>

text \<open>Rounding to the nearest integer, ties to even.\<close>

definition round_half_even :: "rat \<Rightarrow> int" where
  "round_half_even q =
     (let f = \<lfloor>q\<rfloor>; d = q - of_int f
      in if d < 1 / 2 then f else if 1 / 2 < d then f + 1 else if even f then f else f + 1)"

text \<open>The number of binary digits of a positive integer, and the binary exponent \<open>e\<close> of a
  positive rational \<open>q\<close>, the one with \<open>2 powi e \<le> q < 2 powi (e + 1)\<close>.\<close>

function bit_length :: "int \<Rightarrow> nat" where
  "bit_length n = (if n \<le> 0 then 0 else Suc (bit_length (n div 2)))"
  by pat_completeness auto
termination
  by (relation "measure nat") auto

declare bit_length.simps [simp del]

definition exponent_of :: "rat \<Rightarrow> int" where
  "exponent_of q =
     (if 1 \<le> q then int (bit_length \<lfloor>q\<rfloor>) - 1
      else - int (bit_length (\<lceil>1 / q\<rceil> - 1)))"

text \<open>A binary64 number has 53 significant binary digits; below \<open>2 powi (- 1022)\<close> the
  numbers are subnormal, with the fixed spacing \<open>2 powi (- 1074)\<close>. \<open>ulp_exponent q\<close> is
  the exponent of the spacing of the floats around \<open>q\<close>, and \<open>binary64 q\<close> the float nearest
  to \<open>q\<close>, ties to even. \<open>max_float\<close> is the largest finite float; a rounded value
  beyond it is an infinity in Python, which the model does not have.\<close>

definition ulp_exponent :: "rat \<Rightarrow> int" where
  "ulp_exponent q = max (exponent_of \<bar>q\<bar>) (- 1022) - 52"

definition binary64 :: "rat \<Rightarrow> rat" where
  "binary64 q =
     (if q = 0 then 0
      else of_int (round_half_even (q / 2 powi ulp_exponent q)) * 2 powi ulp_exponent q)"

definition max_float :: rat where
  "max_float = (2 ^ 53 - 1) * 2 ^ 971"

definition finite64 :: "rat \<Rightarrow> bool" where
  "finite64 q \<longleftrightarrow> \<bar>binary64 q\<bar> \<le> max_float"

text \<open>Float addition and division: the exact result of the operation on the two floats,
  rounded.\<close>

definition fadd :: "rat \<Rightarrow> rat \<Rightarrow> rat" where
  "fadd a b = binary64 (binary64 a + binary64 b)"

definition fdiv :: "rat \<Rightarrow> rat \<Rightarrow> rat" where
  "fdiv a b = binary64 (binary64 a / binary64 b)"

text \<open>The additions of a left-to-right sum stay in the finite range.\<close>

fun sums_finite :: "rat \<Rightarrow> rat list \<Rightarrow> bool" where
  "sums_finite acc [] = finite64 acc"
| "sums_finite acc (x # xs) = (finite64 acc \<and> finite64 x \<and> sums_finite (fadd acc x) xs)"

subsection \<open>Operations on values\<close>

definition is_cont :: "char \<Rightarrow> bool" where
  "is_cont c \<longleftrightarrow> (128::nat) \<le> of_char c \<and> (of_char c :: nat) < 192"

function utf8_chars :: "string \<Rightarrow> string list" where
  "utf8_chars [] = []"
| "utf8_chars (c # cs) = (c # takeWhile is_cont cs) # utf8_chars (dropWhile is_cont cs)"
  by pat_completeness auto
termination
  by (relation "measure length") (auto simp: le_imp_less_Suc length_dropWhile_le)

text \<open>Truth value testing (\<^verbatim>\<open>if x:\<close>).\<close>

fun py_truthy :: "pyval \<Rightarrow> bool" where
  "py_truthy PyNone = False"
| "py_truthy (PyBool b) = b"
| "py_truthy (PyInt i) = (i \<noteq> 0)"
| "py_truthy (PyFloat q) = (binary64 q \<noteq> 0)"
| "py_truthy (PyStr s) = (s \<noteq> [])"
| "py_truthy (PyList xs) = (xs \<noteq> [])"
| "py_truthy (PyTuple xs) = (xs \<noteq> [])"
| "py_truthy (PyDict kvs) = (kvs \<noteq> [])"

text \<open>\<^verbatim>\<open>len(x)\<close>: a \<^verbatim>\<open>TypeError\<close> for values without a length.\<close>

fun py_len :: "pyval \<Rightarrow> pyerror + nat" where
  "py_len (PyStr s) = Inr (length (utf8_chars s))"
| "py_len (PyList xs) = Inr (length xs)"
| "py_len (PyTuple xs) = Inr (length xs)"
| "py_len (PyDict kvs) = Inr (length kvs)"
| "py_len _ = Inl TypeError"

text \<open>Iteration (\<^verbatim>\<open>for x in v\<close>): a string yields its characters, a dictionary its keys.\<close>

fun py_iter :: "pyval \<Rightarrow> pyerror + pyval list" where
  "py_iter (PyStr s) = Inr (map PyStr (utf8_chars s))"
| "py_iter (PyList xs) = Inr xs"
| "py_iter (PyTuple xs) = Inr xs"
| "py_iter (PyDict kvs) = Inr (map fst kvs)"
| "py_iter _ = Inl TypeError"

text \<open>Dictionary lookup with a string key and with an integer key. A string key equals
  only the same string; an integer key equals every number of the same value
  (\<^verbatim>\<open>1 == 1.0 == True\<close>).\<close>

fun dict_get_str :: "(pyval \<times> pyval) list \<Rightarrow> string \<Rightarrow> pyval option" where
  "dict_get_str [] k = None"
| "dict_get_str ((PyStr s, v) # kvs) k = (if s = k then Some v else dict_get_str kvs k)"
| "dict_get_str (_ # kvs) k = dict_get_str kvs k"

fun num_value :: "pyval \<Rightarrow> rat option" where
  "num_value (PyBool b) = Some (if b then 1 else 0)"
| "num_value (PyInt i) = Some (of_int i)"
| "num_value (PyFloat q) = Some (binary64 q)"
| "num_value _ = None"

fun dict_get_int :: "(pyval \<times> pyval) list \<Rightarrow> nat \<Rightarrow> pyval option" where
  "dict_get_int [] i = None"
| "dict_get_int ((k, v) # kvs) i =
     (if num_value k = Some (of_nat i) then Some v else dict_get_int kvs i)"

text \<open>\<^verbatim>\<open>d.get(k, default)\<close> for a string key.\<close>

definition dict_get :: "(pyval \<times> pyval) list \<Rightarrow> string \<Rightarrow> pyval \<Rightarrow> pyval" where
  "dict_get kvs k dflt = (case dict_get_str kvs k of None \<Rightarrow> dflt | Some v \<Rightarrow> v)"

text \<open>\<^verbatim>\<open>x[i]\<close> for an index \<open>i \<ge> 0\<close> (the code only subscripts with \<^verbatim>\<open>0\<close>, \<^verbatim>\<open>1\<close> and the
  counter of \<^verbatim>\<open>enumerate\<close>).\<close>

fun py_getitem :: "pyval \<Rightarrow> nat \<Rightarrow> pyerror + pyval" where
  "py_getitem (PyList xs) i = (if i < length xs then Inr (xs ! i) else Inl IndexError)"
| "py_getitem (PyTuple xs) i = (if i < length xs then Inr (xs ! i) else Inl IndexError)"
| "py_getitem (PyStr s) i =
     (if i < length (utf8_chars s) then Inr (PyStr (utf8_chars s ! i)) else Inl IndexError)"
| "py_getitem (PyDict kvs) i =
     (case dict_get_int kvs i of None \<Rightarrow> Inl KeyError | Some v \<Rightarrow> Inr v)"
| "py_getitem _ i = Inl TypeError"

text \<open>\<^verbatim>\<open>float(x)\<close>: numbers convert, an integer beyond the finite floats raises
  \<^verbatim>\<open>OverflowError\<close>, a string is parsed (\<^verbatim>\<open>ValueError\<close> when it is not a number),
  everything else is a \<^verbatim>\<open>TypeError\<close>.\<close>

fun py_float :: "float_parser \<Rightarrow> pyval \<Rightarrow> pyerror + rat" where
  "py_float P (PyBool b) = Inr (if b then 1 else 0)"
| "py_float P (PyInt i) = (if finite64 (of_int i) then Inr (of_int i) else Inl OverflowError)"
| "py_float P (PyFloat q) = Inr q"
| "py_float P (PyStr s) = (case P s of None \<Rightarrow> Inl ValueError | Some q \<Rightarrow> Inr q)"
| "py_float P _ = Inl TypeError"

text \<open>\<^verbatim>\<open>enumerate(xs)\<close>, \<^verbatim>\<open>sum(xs)\<close>, \<^verbatim>\<open>min(xs)\<close> and \<^verbatim>\<open>max(xs)\<close> on a list of floats.
  \<^verbatim>\<open>sum\<close> adds the items to \<^verbatim>\<open>0\<close> from left to right, rounding after each addition, as
  CPython does before version 3.12, and from 3.12 on for items that are not of the exact
  type \<^verbatim>\<open>float\<close>; the compensated summation that CPython 3.12 and later use for items
  of the exact type \<^verbatim>\<open>float\<close>, which can differ in the last binary digit, is not
  modelled. \<^verbatim>\<open>min\<close> and \<^verbatim>\<open>max\<close> keep the first of equal floats;
  \<open>py_min\<close> and \<open>py_max\<close> are only called on non-empty lists, as in the source.\<close>

definition enumerate_from0 :: "'a list \<Rightarrow> (nat \<times> 'a) list" where
  "enumerate_from0 xs = zip [0..<length xs] xs"

definition py_sum :: "rat list \<Rightarrow> rat" where
  "py_sum xs = foldl fadd 0 xs"

fun py_min :: "rat list \<Rightarrow> rat" where
  "py_min [] = 0"
| "py_min (x # xs) = foldl (\<lambda>m c. if binary64 c < binary64 m then c else m) x xs"

fun py_max :: "rat list \<Rightarrow> rat" where
  "py_max [] = 0"
| "py_max (x # xs) = foldl (\<lambda>m c. if binary64 m < binary64 c then c else m) x xs"

section \<open>Number formatting\<close>

text \<open>\<^verbatim>\<open>round(x, n)\<close> and the format \<^verbatim>\<open>{x:.2f}\<close> round the exact value of the float to
  the nearest decimal with the given number of places, ties to even. \<^verbatim>\<open>round\<close> returns the
  float nearest to that decimal, which is written by the decimal.\<close>

definition py_round :: "rat \<Rightarrow> nat \<Rightarrow> rat" where
  "py_round q nd = of_int (round_half_even (binary64 q * 10 ^ nd)) / 10 ^ nd"

definition digit_char :: "nat \<Rightarrow> char" where
  "digit_char d = ''0123456789'' ! d"

fun digits_of :: "nat \<Rightarrow> string" where
  "digits_of n =
     (if n < 10 then [digit_char n] else digits_of (n div 10) @ [digit_char (n mod 10)])"

declare digits_of.simps [simp del]

definition format_2f :: "rat \<Rightarrow> string" where
  "format_2f q =
     (let n = nat (round_half_even (\<bar>binary64 q\<bar> * 100))
      in (if q < 0 then ''-'' else '''') @ digits_of (n div 100) @ ''.''
           @ [digit_char (n mod 100 div 10), digit_char (n mod 10)])"

section \<open>Formatting the text blocks\<close>

text \<open>\<^verbatim>\<open>"\n".join(lines)\<close> on strings.\<close>

fun join_lines :: "string list \<Rightarrow> string" where
  "join_lines [] = []"
| "join_lines [l] = l"
| "join_lines (l # ls) = l @ [CHR 0x0A] @ join_lines ls"

text \<open>The separator \<^verbatim>\<open>"\n\n=== ... ===\n"\<close> between the two sections; the five CJK
  characters of the heading are written as their UTF-8 bytes.\<close>

definition heading :: string where
  "heading = ''=== '' @
     [CHR 0xE7, CHR 0xBA, CHR 0xAF, CHR 0xE6, CHR 0x96, CHR 0x87, CHR 0xE6, CHR 0x9C, CHR 0xAC,
      CHR 0xE5, CHR 0x86, CHR 0x85, CHR 0xE5, CHR 0xAE, CHR 0xB9] @ '' ===''"

definition separator :: string where
  "separator = [CHR 0x0A, CHR 0x0A] @ heading @ [CHR 0x0A]"

text \<open>One line of the annotated section:
  \<^verbatim>\<open>f"[Block {i}] (conf: {conf:.2f}): {text}"\<close>.\<close>

definition block_line :: "nat \<Rightarrow> string \<Rightarrow> rat \<Rightarrow> string" where
  "block_line i t conf =
     ''[Block '' @ digits_of i @ ''] (conf: '' @ format_2f conf @ ''): '' @ t"

fun detailed_lines :: "nat \<Rightarrow> (string \<times> rat) list \<Rightarrow> string list" where
  "detailed_lines i [] = []"
| "detailed_lines i ((t, conf) # rest) = block_line i t conf # detailed_lines (Suc i) rest"

fun str_of :: "pyval \<Rightarrow> string option" where
  "str_of (PyStr s) = Some s"
| "str_of _ = None"

fun all_strs :: "pyval list \<Rightarrow> string list option" where
  "all_strs [] = Some []"
| "all_strs (v # vs) =
     (case str_of v of None \<Rightarrow> None
      | Some s \<Rightarrow> (case all_strs vs of None \<Rightarrow> None | Some ss \<Rightarrow> Some (s # ss)))"

text \<open>\<^verbatim>\<open>_format_text_blocks\<close>. An empty list of texts returns the empty string at once.
  Otherwise the annotated lines run over \<^verbatim>\<open>zip(text_blocks, confidences)\<close>, counted from 1,
  and \<^verbatim>\<open>"\n".join(text_blocks)\<close> raises \<^verbatim>\<open>TypeError\<close> when a text is not a string: the
  annotated lines built before it are lost with the exception, so the model tests for
  strings first.\<close>

definition format_text_blocks :: "pyval list \<Rightarrow> rat list \<Rightarrow> pyerror + string" where
  "format_text_blocks text_blocks confidences =
     (if text_blocks = [] then Inr []
      else case all_strs text_blocks of
             None \<Rightarrow> Inl TypeError
           | Some ts \<Rightarrow>
               (let detailed_text = join_lines (detailed_lines 1 (zip ts confidences));
                    plain_text = join_lines ts
                in Inr (detailed_text @ separator @ plain_text)))"

section \<open>Normalising the raw OCR result\<close>

text \<open>One detection, as the source appends it to \<^verbatim>\<open>detailed_blocks\<close>. The source keeps
  three lists in step (\<^verbatim>\<open>text_blocks\<close>, \<^verbatim>\<open>confidences\<close>, \<^verbatim>\<open>detailed_blocks\<close>) and
  appends to all three together; the model keeps the list of detections and reads the
  other two off it. No value of the universe has a \<^verbatim>\<open>tolist\<close> attribute, so the box
  is stored as it is.\<close>

record detection =
  det_text :: pyval
  confidence :: rat
  bbox :: pyval
  block_index :: nat

text \<open>Sequencing of steps that may raise: the first exception ends the computation.\<close>

definition raising :: "pyerror + 'a \<Rightarrow> ('a \<Rightarrow> pyerror + 'b) \<Rightarrow> pyerror + 'b" where
  "raising m f = (case m of Inl e \<Rightarrow> Inl e | Inr x \<Rightarrow> f x)"

text \<open>A loop over the items of a sequence whose body either appends one detection,
  skips the item, or raises (which ends the call).\<close>

fun collect :: "('a \<Rightarrow> pyerror + detection option) \<Rightarrow> 'a list \<Rightarrow> pyerror + detection list" where
  "collect f [] = Inr []"
| "collect f (x # xs) =
     raising (f x) (\<lambda>r.
     raising (collect f xs) (\<lambda>ds.
       Inr (case r of None \<Rightarrow> ds | Some d \<Rightarrow> d # ds)))"

text \<open>Body of the loop of the batch shape (a dictionary with \<^verbatim>\<open>rec_texts\<close>): confidence
  and box are taken at the matching index, \<^verbatim>\<open>1.0\<close> and \<^verbatim>\<open>None\<close> when the index is out
  of range; \<^verbatim>\<open>float(confidence)\<close> may raise.\<close>

definition batch_item :: "float_parser \<Rightarrow> pyval \<Rightarrow> pyval \<Rightarrow> nat \<times> pyval \<Rightarrow> pyerror + detection option" where
  "batch_item P rec_scores dt_polys item =
     (case item of (idx, txt) \<Rightarrow>
        raising (py_len rec_scores) (\<lambda>n.
        raising (if idx < n then py_getitem rec_scores idx else Inr (PyFloat 1)) (\<lambda>conf.
        raising (py_len dt_polys) (\<lambda>m.
        raising (if idx < m then py_getitem dt_polys idx else Inr PyNone) (\<lambda>box.
        raising (py_float P conf) (\<lambda>c.
          Inr (Some \<lparr>det_text = txt, confidence = c, bbox = box, block_index = idx\<rparr>)))))))"

text \<open>Body of the loop of the flat shape (a list of strings): a falsy text is skipped.\<close>

definition flat_item :: "nat \<times> pyval \<Rightarrow> pyerror + detection option" where
  "flat_item item =
     (case item of (idx, txt) \<Rightarrow>
      if py_truthy txt
      then Inr (Some \<lparr>det_text = txt, confidence = 1, bbox = PyNone, block_index = idx\<rparr>)
      else Inr None)"

fun is_list_or_tuple :: "pyval \<Rightarrow> bool" where
  "is_list_or_tuple (PyList xs) = True"
| "is_list_or_tuple (PyTuple xs) = True"
| "is_list_or_tuple _ = False"

fun elems :: "pyval \<Rightarrow> pyval list" where
  "elems (PyList xs) = xs"
| "elems (PyTuple xs) = xs"
| "elems _ = []"

text \<open>Body of the loop of the nested-list shape, one \<^verbatim>\<open>[box, (text, confidence)]\<close> per
  line: a falsy or short line is skipped, a line whose second field is not a pair is
  skipped with a warning, \<^verbatim>\<open>float(confidence)\<close> may raise.\<close>

definition legacy_item :: "float_parser \<Rightarrow> nat \<times> pyval \<Rightarrow> pyerror + detection option" where
  "legacy_item P item =
     (case item of (idx, line) \<Rightarrow>
        if \<not> py_truthy line then Inr None
        else raising (py_len line) (\<lambda>n.
          if n < 2 then Inr None
          else raising (py_getitem line 0) (\<lambda>box.
               raising (py_getitem line 1) (\<lambda>pair.
                 if is_list_or_tuple pair \<and> 2 \<le> length (elems pair)
                 then raising (py_float P (elems pair ! 1)) (\<lambda>c.
                        Inr (Some \<lparr>det_text = elems pair ! 0, confidence = c, bbox = box,
                                   block_index = idx\<rparr>))
                 else Inr None))))"

text \<open>The shape detection of \<^verbatim>\<open>_process_ocr_result\<close>, on the first element of a
  non-empty top-level list; every other raw result gives no detection.\<close>

definition detections :: "float_parser \<Rightarrow> pyval \<Rightarrow> pyerror + detection list" where
  "detections P ocr_result =
     (case ocr_result of
        PyList (result_item # rest) \<Rightarrow>
          (case result_item of
             PyDict kvs \<Rightarrow>
               (if dict_get_str kvs ''rec_texts'' \<noteq> None
                then let rec_texts = dict_get kvs ''rec_texts'' (PyList []);
                         rec_scores = dict_get kvs ''rec_scores'' (PyList []);
                         dt_polys = dict_get kvs ''dt_polys'' (PyList [])
                     in raising (py_iter rec_texts) (\<lambda>ts.
                          collect (batch_item P rec_scores dt_polys) (enumerate_from0 ts))
                else Inr [])
           | PyStr s \<Rightarrow> collect flat_item (enumerate_from0 (result_item # rest))
           | PyList lines \<Rightarrow> collect (legacy_item P) (enumerate_from0 lines)
           | _ \<Rightarrow> Inr [])
      | _ \<Rightarrow> Inr [])"

text \<open>The reader object (\<^verbatim>\<open>self\<close>): its settings and the OCR engine, a function from
  the path string to the raw result or to the exception it raises. A \<^verbatim>\<open>pathlib.Path\<close>
  is given with the attributes the code reads.\<close>

record reader =
  lang :: string
  use_gpu :: bool
  ocr_version :: string
  ocr_model :: "string \<Rightarrow> pyerror + pyval"

record pypath =
  path_str :: string
  name :: string
  suffix :: string
  absolute :: string
  exists :: bool

type_synonym metadata = "string \<rightharpoonup> pyval"

definition avg_of :: "rat list \<Rightarrow> rat" where
  "avg_of confidences =
     (if confidences \<noteq> [] then fdiv (py_sum confidences) (of_nat (length confidences))
      else 0)"

definition computed_metadata :: "reader \<Rightarrow> pypath \<Rightarrow> nat \<Rightarrow> rat list \<Rightarrow> metadata" where
  "computed_metadata self file_path num confidences =
     [''image_path'' \<mapsto> PyStr (absolute file_path),
      ''file_name'' \<mapsto> PyStr (name file_path),
      ''ocr_model'' \<mapsto> PyStr (ocr_version self),
      ''language'' \<mapsto> PyStr (lang self),
      ''num_text_blocks'' \<mapsto> PyInt (int num),
      ''avg_confidence'' \<mapsto> PyFloat (py_round (avg_of confidences) 4),
      ''min_confidence'' \<mapsto>
         PyFloat (if confidences \<noteq> [] then py_round (py_min confidences) 4 else 0),
      ''max_confidence'' \<mapsto>
         PyFloat (if confidences \<noteq> [] then py_round (py_max confidences) 4 else 0),
      ''used_gpu'' \<mapsto> PyBool (use_gpu self)]"

text \<open>\<^verbatim>\<open>_process_ocr_result\<close>. \<^verbatim>\<open>extra_info\<close> is \<^verbatim>\<open>None\<close> or a dictionary with string
  keys; \<^verbatim>\<open>metadata.update(extra_info)\<close> runs when it is truthy, and updating with an
  empty dictionary changes nothing, so the model updates whenever one is given.\<close>

definition process_ocr_result ::
  "reader \<Rightarrow> float_parser \<Rightarrow> pyval \<Rightarrow> pypath \<Rightarrow> metadata option \<Rightarrow> pyerror + (string \<times> metadata)" where
  "process_ocr_result self P ocr_result file_path extra_info =
     raising (detections P ocr_result) (\<lambda>detailed_blocks.
       let text_blocks = map det_text detailed_blocks;
           confidences = map confidence detailed_blocks
       in raising (format_text_blocks text_blocks confidences) (\<lambda>formatted_text.
            let md = computed_metadata self file_path (length text_blocks) confidences
            in Inr (formatted_text,
                    (case extra_info of None \<Rightarrow> md | Some extra \<Rightarrow> md ++ extra))))"

section \<open>Loading image files\<close>

text \<open>\<^verbatim>\<open>str.lower()\<close> on the ASCII letters. No character outside ASCII lowers to a string
  of the supported set, so the membership test below is the same as in Python.\<close>

definition lower_char :: "char \<Rightarrow> char" where
  "lower_char c =
     (if (65::nat) \<le> of_char c \<and> (of_char c :: nat) \<le> 90 then char_of (of_char c + (32::nat))
      else c)"

definition str_lower :: "string \<Rightarrow> string" where
  "str_lower s = map lower_char s"

definition supported_formats :: "string set" where
  "supported_formats = {''.png'', ''.jpg'', ''.jpeg'', ''.bmp'', ''.tiff'', ''.tif'', ''.webp''}"

record document =
  doc_text :: string
  doc_metadata :: metadata

text \<open>The argument \<^verbatim>\<open>file\<close> of \<^verbatim>\<open>load_data\<close>: one path or a list of paths.\<close>

datatype file_arg = One pypath | Many "pypath list"

text \<open>The loop of \<^verbatim>\<open>load_data\<close> over the files. The state carries the paths the engine
  has been invoked on so far (\<open>calls\<close>) and the documents built so far; an exception
  ends the loop and leaves the call log as it is at that moment. For each file, in this
  order: the existence test (\<^verbatim>\<open>FileNotFoundError\<close>), the extension test
  (\<^verbatim>\<open>ValueError\<close>), the engine call, \<^verbatim>\<open>_process_ocr_result\<close>.\<close>

fun load_files ::
  "reader \<Rightarrow> float_parser \<Rightarrow> metadata option \<Rightarrow> pypath list \<Rightarrow> string list \<Rightarrow> document list
     \<Rightarrow> string list \<times> (pyerror + document list)" where
  "load_files self P extra_info [] calls documents = (calls, Inr documents)"
| "load_files self P extra_info (file_path # files) calls documents =
     (if \<not> exists file_path then (calls, Inl FileNotFoundError)
      else if str_lower (suffix file_path) \<notin> supported_formats then (calls, Inl ValueError)
      else (case ocr_model self (path_str file_path) of
              Inl e \<Rightarrow> (calls @ [path_str file_path], Inl e)
            | Inr result \<Rightarrow>
                (case process_ocr_result self P result file_path extra_info of
                   Inl e \<Rightarrow> (calls @ [path_str file_path], Inl e)
                 | Inr r \<Rightarrow>
                     load_files self P extra_info files (calls @ [path_str file_path])
                       (documents @ [\<lparr>doc_text = fst r, doc_metadata = snd r\<rparr>]))))"

definition load_data ::
  "reader \<Rightarrow> float_parser \<Rightarrow> file_arg \<Rightarrow> metadata option
     \<Rightarrow> string list \<times> (pyerror + document list)" where
  "load_data self P file extra_info =
     load_files self P extra_info (case file of One p \<Rightarrow> [p] | Many ps \<Rightarrow> ps) [] []"

section \<open>Reading the plain-text section back\<close>

text \<open>Modelled from the spec: the reader of the formatted text that the round-trip
  property speaks of, which the repository does not contain. After the specification's
  words, the plain-text section is what follows the first separator, and it is split at
  line breaks as \<^verbatim>\<open>str.split("\n")\<close> does.\<close>

fun split_nl :: "string \<Rightarrow> string list" where
  "split_nl [] = [[]]"
| "split_nl (c # cs) =
     (if c = CHR 0x0A then [] # split_nl cs
      else (case split_nl cs of [] \<Rightarrow> [[c]] | l # ls \<Rightarrow> (c # l) # ls))"

fun after_first :: "string \<Rightarrow> string \<Rightarrow> string option" where
  "after_first sep [] = (if sep = [] then Some [] else None)"
| "after_first sep (c # cs) =
     (if take (length sep) (c # cs) = sep then Some (drop (length sep) (c # cs))
      else after_first sep cs)"

definition parse_plain_text :: "string \<Rightarrow> string list option" where
  "parse_plain_text s = map_option split_nl (after_first separator s)"

section \<open>The chunking benchmark\<close>

text \<open>\<^verbatim>\<open>chunking_research/main.py\<close>: \<^verbatim>\<open>evaluate_splitter\<close> and
  \<^verbatim>\<open>evaluate_sentence_window_splitter\<close>. The splitters, the vector index with its query
  engine and the clock are collaborators outside the repository; they are parameters of the
  model, each a function that returns its value or the exception it raises. A source
  record carries a score, which the library types as optional, and a text.\<close>

record source_node =
  score :: "rat option"
  node_text :: string

record query_response =
  response :: string
  source_nodes :: "source_node list"

record eval_results =
  config_name :: string
  num_chunks :: nat
  query_time :: rat
  res_response :: string
  num_sources :: nat
  avg_similarity :: rat

text \<open>The loop that prints the source records formats each score with \<^verbatim>\<open>:.4f\<close>, which
  raises \<^verbatim>\<open>TypeError\<close> on \<^verbatim>\<open>None\<close>. The printed text itself is not modelled.\<close>

fun print_sources :: "source_node list \<Rightarrow> pyerror + unit" where
  "print_sources [] = Inr ()"
| "print_sources (n # ns) =
     (case score n of None \<Rightarrow> Inl TypeError | Some s \<Rightarrow> print_sources ns)"

text \<open>\<^verbatim>\<open>sum(node.score for node in response.source_nodes)\<close>: the scores are added to
  \<^verbatim>\<open>0\<close> from left to right, in float arithmetic, each addition rounded as in \<open>py_sum\<close>;
  adding \<^verbatim>\<open>None\<close> raises \<^verbatim>\<open>TypeError\<close>. The quotient by the number of records is a float
  division.\<close>

fun sum_scores :: "rat \<Rightarrow> source_node list \<Rightarrow> pyerror + rat" where
  "sum_scores acc [] = Inr acc"
| "sum_scores acc (n # ns) =
     (case score n of None \<Rightarrow> Inl TypeError | Some s \<Rightarrow> sum_scores (fadd acc s) ns)"

text \<open>Step 6 of both functions: the dictionary of results.\<close>

definition make_results ::
  "string \<Rightarrow> nat \<Rightarrow> rat \<Rightarrow> query_response \<Rightarrow> pyerror + eval_results" where
  "make_results cname n elapsed_time resp =
     raising (if source_nodes resp \<noteq> []
              then raising (sum_scores 0 (source_nodes resp)) (\<lambda>total.
                     Inr (fdiv total (of_nat (length (source_nodes resp)))))
              else Inr 0) (\<lambda>avg.
       Inr \<lparr>config_name = cname, num_chunks = n, query_time = elapsed_time,
            res_response = response resp, num_sources = length (source_nodes resp),
            avg_similarity = avg\<rparr>)"

text \<open>\<^verbatim>\<open>evaluate_splitter\<close>: split, index and query (\<open>run_query\<close> stands for building
  \<^verbatim>\<open>VectorStoreIndex(nodes)\<close> and querying its engine with \<^verbatim>\<open>similarity_top_k=3\<close>), print
  the sources, build the results. \<open>start_time\<close> and \<open>end_time\<close> are the two readings of
  the clock.\<close>

definition evaluate_splitter ::
  "(document list \<Rightarrow> pyerror + string list) \<Rightarrow> (string list \<Rightarrow> string \<Rightarrow> pyerror + query_response)
     \<Rightarrow> rat \<Rightarrow> rat \<Rightarrow> document list \<Rightarrow> string \<Rightarrow> string \<Rightarrow> pyerror + eval_results" where
  "evaluate_splitter get_nodes_from_documents run_query start_time end_time documents query cname =
     raising (get_nodes_from_documents documents) (\<lambda>nodes.
     raising (run_query nodes query) (\<lambda>resp.
     raising (print_sources (source_nodes resp)) (\<lambda>u.
       make_results cname (length nodes) (end_time - start_time) resp)))"

text \<open>\<^verbatim>\<open>evaluate_sentence_window_splitter\<close>: the documents are first split by a
  \<^verbatim>\<open>SentenceSplitter(chunk_size=512, chunk_overlap=50)\<close> (\<open>base_splitter\<close>), the window
  nodes are built on the base nodes, and the query engine replaces the node text by its
  window (inside \<open>run_query\<close>); the results are computed as above.\<close>

definition evaluate_sentence_window_splitter ::
  "(document list \<Rightarrow> pyerror + string list) \<Rightarrow> (string list \<Rightarrow> pyerror + string list)
     \<Rightarrow> (string list \<Rightarrow> string \<Rightarrow> pyerror + query_response)
     \<Rightarrow> rat \<Rightarrow> rat \<Rightarrow> document list \<Rightarrow> string \<Rightarrow> string \<Rightarrow> pyerror + eval_results" where
  "evaluate_sentence_window_splitter base_splitter build_window_nodes run_query start_time end_time
       documents query cname =
     raising (base_splitter documents) (\<lambda>base_nodes.
     raising (build_window_nodes base_nodes) (\<lambda>nodes.
     raising (run_query nodes query) (\<lambda>resp.
     raising (print_sources (source_nodes resp)) (\<lambda>u.
       make_results cname (length nodes) (end_time - start_time) resp))))"

section \<open>Observing a result\<close>

text \<open>The metadata value under a key and the text of a returned pair; nothing when the
  call raised.\<close>

definition meta_of :: "pyerror + (string \<times> metadata) \<Rightarrow> string \<Rightarrow> pyval option" where
  "meta_of r k = (case r of Inl e \<Rightarrow> None | Inr p \<Rightarrow> snd p k)"

definition text_of :: "pyerror + (string \<times> metadata) \<Rightarrow> string option" where
  "text_of r = (case r of Inl e \<Rightarrow> None | Inr p \<Rightarrow> Some (fst p))"

text \<open>The value a call returned, and formatting followed by reading the plain-text
  section back.\<close>

definition returned :: "pyerror + 'a \<Rightarrow> 'a option" where
  "returned r = (case r of Inl e \<Rightarrow> None | Inr x \<Rightarrow> Some x)"

definition round_trip :: "pyval list \<Rightarrow> rat list \<Rightarrow> string list option" where
  "round_trip text_blocks confidences =
     (case returned (format_text_blocks text_blocks confidences) of
        None \<Rightarrow> None
      | Some body \<Rightarrow> parse_plain_text body)"

section \<open>Sample inputs\<close>

text \<open>A reader with the default settings whose engine is never consulted, an interpreter
  whose \<^verbatim>\<open>float\<close> rejects every string, and an existing image path.\<close>

definition no_parser :: float_parser where
  "no_parser s = None"

definition no_engine :: "string \<Rightarrow> pyerror + pyval" where
  "no_engine p = Inl EngineError"

definition demo_reader :: reader where
  "demo_reader = \<lparr>lang = ''ch'', use_gpu = False, ocr_version = ''PP-OCRv4'', ocr_model = no_engine\<rparr>"

definition demo_path :: pypath where
  "demo_path = \<lparr>path_str = ''scan.png'', name = ''scan.png'', suffix = ''.png'',
                 absolute = ''/data/scan.png'', exists = True\<rparr>"

text \<open>A nested-list result whose second line carries \<^verbatim>\<open>None\<close> as confidence.\<close>

definition raw_bad_confidence :: pyval where
  "raw_bad_confidence =
     PyList [PyList [PyList [PyNone, PyTuple [PyStr ''A'', PyFloat (9 / 10)]],
                     PyList [PyNone, PyTuple [PyStr ''B'', PyNone]]]]"

text \<open>A batch-shape result with one text of confidence \<^verbatim>\<open>0.0\<close>, and the batch-shape
  result of the scenario, two texts with confidences \<^verbatim>\<open>0.9\<close> and \<^verbatim>\<open>0.8\<close>.\<close>

definition raw_zero_confidence :: pyval where
  "raw_zero_confidence =
     PyList [PyDict [(PyStr ''rec_texts'', PyList [PyStr ''A'']),
                     (PyStr ''rec_scores'', PyList [PyFloat 0])]]"

definition raw_batch :: pyval where
  "raw_batch =
     PyList [PyDict [(PyStr ''rec_texts'', PyList [PyStr ''A'', PyStr ''B'']),
                     (PyStr ''rec_scores'', PyList [PyFloat (9 / 10), PyFloat (8 / 10)])]]"


text \<open>Two paths with the extension \<^verbatim>\<open>.gif\<close>: a file that exists (its extension in upper
  case) and one that does not.\<close>

definition gif_path :: pypath where
  "gif_path = \<lparr>path_str = ''scan.GIF'', name = ''scan.GIF'', suffix = ''.GIF'',
                absolute = ''/data/scan.GIF'', exists = True\<rparr>"

definition missing_gif :: pypath where
  "missing_gif = \<lparr>path_str = ''gone.gif'', name = ''gone.gif'', suffix = ''.gif'',
                   absolute = ''/data/gone.gif'', exists = False\<rparr>"


definition raw_flat_gaps :: pyval where
  "raw_flat_gaps = PyList [PyStr ''A'', PyStr '''', PyStr ''C'', PyStr '''']"

text \<open>A batch-shape result whose mean confidence, \<open>13/15\<close>, has no finite decimal
  expansion, and extra metadata that carries a key of its own and one of the computed
  keys.\<close>

definition raw_tie :: pyval where
  "raw_tie =
     PyList [PyDict [(PyStr ''rec_texts'',
                      PyList [PyStr ''A'', PyStr ''B'', PyStr ''C'', PyStr ''D'', PyStr ''E'']),
                     (PyStr ''rec_scores'',
                      PyList [PyFloat (1 / 32), PyFloat 0, PyFloat 0, PyFloat 0, PyFloat 0])]]"

definition demo_extra :: metadata where
  "demo_extra = [''source'' \<mapsto> PyStr ''scanner'', ''avg_confidence'' \<mapsto> PyStr ''n/a'']"

text \<open>Collaborators of the benchmark: a splitter that makes one chunk per document, a
  window builder that keeps the nodes, and two query engines, one that returns two
  sources with the scores \<^verbatim>\<open>0.9\<close> and \<^verbatim>\<open>0.8\<close> and one that returns none.\<close>

definition demo_splitter :: "document list \<Rightarrow> pyerror + string list" where
  "demo_splitter docs = Inr (map doc_text docs)"

definition demo_window :: "string list \<Rightarrow> pyerror + string list" where
  "demo_window nodes = Inr nodes"

definition demo_sources :: "source_node list" where
  "demo_sources = [\<lparr>score = Some (9 / 10), node_text = ''first''\<rparr>,
                   \<lparr>score = Some (8 / 10), node_text = ''second''\<rparr>]"

definition demo_query :: "string list \<Rightarrow> string \<Rightarrow> pyerror + query_response" where
  "demo_query nodes q = Inr \<lparr>response = ''answer'', source_nodes = demo_sources\<rparr>"

definition empty_query :: "string list \<Rightarrow> string \<Rightarrow> pyerror + query_response" where
  "empty_query nodes q = Inr \<lparr>response = ''answer'', source_nodes = []\<rparr>"
section \<open>Basic facts\<close>

lemma raising_simps [simp]:
  "raising (Inl e) f = Inl e" "raising (Inr x) f = f x"
  by (simp_all add: raising_def)

lemma isl_raising: "isl m \<Longrightarrow> isl (raising m f)"
  by (cases m) simp_all

lemma collect_raises: "x \<in> set xs \<Longrightarrow> isl (f x) \<Longrightarrow> isl (collect f xs)"
proof (induction xs)
  case Nil
  then show ?case by simp
next
  case (Cons y ys)
  show ?case
  proof (cases "f y")
    case (Inl e)
    then show ?thesis by simp
  next
    case (Inr r)
    with Cons have "isl (collect f ys)" by auto
    then obtain e where "collect f ys = Inl e" by (cases "collect f ys") simp_all
    with Inr show ?thesis by simp
  qed
qed

lemma enumerate_from0_mem: "i < length xs \<Longrightarrow> (i, xs ! i) \<in> set (enumerate_from0 xs)"
  unfolding enumerate_from0_def by (force simp: in_set_zip)

lemma enumerate_from0_mem': "x \<in> set xs \<Longrightarrow> \<exists>i. (i, x) \<in> set (enumerate_from0 xs)"
  by (metis enumerate_from0_mem in_set_conv_nth)

lemma legacy_item_raises:
  assumes "py_truthy line" "py_len line = Inr n" "2 \<le> n" "py_getitem line 1 = Inr pair"
    "is_list_or_tuple pair" "2 \<le> length (elems pair)" "py_float P (elems pair ! 1) = Inl err"
  shows "isl (legacy_item P (i, line))"
  using assms by (cases "py_getitem line 0") (simp_all add: legacy_item_def)

lemma batch_item_raises:
  assumes "py_len rec_scores = Inr n" "i < n" "py_getitem rec_scores i = Inr conf"
    "py_float P conf = Inl err"
  shows "isl (batch_item P rec_scores dt_polys (i, t))"
proof (cases "py_len dt_polys")
  case (Inl a)
  then show ?thesis using assms by (simp add: batch_item_def)
next
  case (Inr m)
  then show ?thesis using assms
    by (cases "py_getitem dt_polys i") (simp_all add: batch_item_def)
qed


lemma detections_legacy_raises:
  assumes "line \<in> set lines" "py_truthy line" "py_len line = Inr n" "2 \<le> n"
    "py_getitem line 1 = Inr pair" "is_list_or_tuple pair" "2 \<le> length (elems pair)"
    "py_float P (elems pair ! 1) = Inl err"
  shows "isl (detections P (PyList (PyList lines # rest)))"
proof -
  from enumerate_from0_mem' [OF assms(1)]
  obtain j where j: "(j, line) \<in> set (enumerate_from0 lines)" ..
  have "isl (legacy_item P (j, line))"
    using assms(2-8) by (rule legacy_item_raises)
  with j have "isl (collect (legacy_item P) (enumerate_from0 lines))"
    by (rule collect_raises)
  then show ?thesis
    by (simp add: detections_def)
qed

lemma detections_batch_raises:
  assumes "dict_get_str kvs ''rec_texts'' = Some rec_texts" "py_iter rec_texts = Inr ts"
    "dict_get_str kvs ''rec_scores'' = Some rec_scores" "py_len rec_scores = Inr m"
    "i < length ts" "i < m" "py_getitem rec_scores i = Inr conf" "py_float P conf = Inl err"
  shows "isl (detections P (PyList (PyDict kvs # rest)))"
proof -
  let ?dp = "dict_get kvs ''dt_polys'' (PyList [])"
  have "isl (batch_item P rec_scores ?dp (i, ts ! i))"
    using assms(4,6,7,8) by (rule batch_item_raises)
  moreover have "(i, ts ! i) \<in> set (enumerate_from0 ts)"
    using assms(5) by (rule enumerate_from0_mem)
  ultimately have "isl (collect (batch_item P rec_scores ?dp) (enumerate_from0 ts))"
    by (rule collect_raises[rotated])
  then show ?thesis
    using assms(1,2,3) by (simp add: detections_def dict_get_def)
qed

subsection \<open>Rounding to binary64\<close>

lemma round_half_even_of_int [simp]: "round_half_even (of_int k) = k"
  by (simp add: round_half_even_def)

lemma round_half_even_range:
  "\<lfloor>x\<rfloor> \<le> round_half_even x \<and> round_half_even x \<le> \<lfloor>x\<rfloor> + 1"
  by (simp add: round_half_even_def Let_def)

lemma round_half_even_mono: "x \<le> y \<Longrightarrow> round_half_even x \<le> round_half_even y"
proof -
  assume xy: "x \<le> y"
  then have f: "\<lfloor>x\<rfloor> \<le> \<lfloor>y\<rfloor>" by (rule floor_mono)
  show ?thesis
  proof (cases "\<lfloor>x\<rfloor> = \<lfloor>y\<rfloor>")
    case True
    with xy show ?thesis by (auto simp: round_half_even_def Let_def)
  next
    case False
    with f have "\<lfloor>x\<rfloor> + 1 \<le> \<lfloor>y\<rfloor>" by simp
    with round_half_even_range [of x] round_half_even_range [of y] show ?thesis by linarith
  qed
qed

lemma bit_length_bounds:
  "0 < n \<Longrightarrow> 2 ^ (bit_length n - 1) \<le> n \<and> n < 2 ^ bit_length n"
proof (induction n rule: bit_length.induct)
  case (1 n)
  show ?case
  proof (cases "n = 1")
    case True
    then show ?thesis by (simp add: bit_length.simps [of 1] bit_length.simps [of 0])
  next
    case False
    with "1.prems" have m: "0 < n div 2" by simp
    from "1.prems" have "\<not> n \<le> 0" by simp
    from "1.IH" [OF this m]
    have ih: "2 ^ (bit_length (n div 2) - 1) \<le> n div 2" "n div 2 < 2 ^ bit_length (n div 2)"
      by simp_all
    have pos: "0 < bit_length (n div 2)"
      using m by (simp add: bit_length.simps [of "n div 2"])
    have bl: "bit_length n = Suc (bit_length (n div 2))"
      using "1.prems" by (simp add: bit_length.simps [of n])
    have "(2::int) ^ bit_length (n div 2) = 2 * 2 ^ (bit_length (n div 2) - 1)"
      using pos by (cases "bit_length (n div 2)") simp_all
    with ih(1) have lo: "2 ^ bit_length (n div 2) \<le> n" by linarith
    from ih(2) have "n div 2 + 1 \<le> 2 ^ bit_length (n div 2)" by simp
    then have hi: "n < 2 * 2 ^ bit_length (n div 2)" by linarith
    from lo hi show ?thesis by (simp add: bl)
  qed
qed

lemma exponent_of_bounds:
  assumes "0 < q"
  shows "2 powi exponent_of q \<le> q \<and> q < 2 powi (exponent_of q + 1)"
proof (cases "1 \<le> q")
  case True
  let ?n = "\<lfloor>q\<rfloor>"
  have n: "0 < ?n" using True by simp
  from bit_length_bounds [OF n]
  have b: "2 ^ (bit_length ?n - 1) \<le> ?n" "?n < 2 ^ bit_length ?n" by simp_all
  have pos: "0 < bit_length ?n" using n by (simp add: bit_length.simps [of ?n])
  have e: "exponent_of q = int (bit_length ?n - 1)"
    using True pos by (simp add: exponent_of_def)
  have "(of_int (2 ^ (bit_length ?n - 1)) :: rat) \<le> of_int ?n"
    using b(1) by (simp only: of_int_le_iff)
  then have "(2 ^ (bit_length ?n - 1) :: rat) \<le> of_int ?n" by simp
  also have "(of_int ?n :: rat) \<le> q" by (rule of_int_floor_le)
  finally have lo: "2 powi exponent_of q \<le> q"
    using e by simp
  have "?n + 1 \<le> 2 ^ bit_length ?n" using b(2) by simp
  then have "(of_int (?n + 1) :: rat) \<le> of_int (2 ^ bit_length ?n)"
    by (simp only: of_int_le_iff)
  then have "(of_int (?n + 1) :: rat) \<le> 2 ^ bit_length ?n" by simp
  moreover have "q < of_int (?n + 1)" by linarith
  ultimately have "q < 2 ^ bit_length ?n" by (rule less_le_trans [rotated])
  moreover have "exponent_of q + 1 = int (bit_length ?n)" using e pos by simp
  ultimately have hi: "q < 2 powi (exponent_of q + 1)" by simp
  from lo hi show ?thesis ..
next
  case False
  let ?r = "1 / q"
  let ?m = "\<lceil>?r\<rceil>"
  let ?k = "bit_length (?m - 1)"
  have r: "1 < ?r" using False assms by simp
  then have m: "0 < ?m - 1" by simp
  from bit_length_bounds [OF m]
  have b: "2 ^ (?k - 1) \<le> ?m - 1" "?m - 1 < 2 ^ ?k" by simp_all
  have e: "exponent_of q = - int ?k" using False by (simp add: exponent_of_def)
  have pos: "0 < ?k" using m by (simp add: bit_length.simps [of "?m - 1"])
  have "?m \<le> 2 ^ ?k" using b(2) by simp
  then have "(of_int ?m :: rat) \<le> of_int (2 ^ ?k)" by (simp only: of_int_le_iff)
  then have "(of_int ?m :: rat) \<le> 2 ^ ?k" by simp
  moreover have "?r \<le> of_int ?m" by (rule le_of_int_ceiling)
  ultimately have "?r \<le> 2 ^ ?k" by (rule order_trans [rotated])
  then have "1 / 2 ^ ?k \<le> q" using assms by (simp add: field_simps)
  then have lo: "2 powi exponent_of q \<le> q"
    by (simp add: e power_int_minus_divide)
  have "(of_int (2 ^ (?k - 1)) :: rat) \<le> of_int (?m - 1)"
    using b(1) by (simp only: of_int_le_iff)
  then have "(2 ^ (?k - 1) :: rat) \<le> of_int (?m - 1)" by simp
  moreover have "(of_int (?m - 1) :: rat) < ?r" by linarith
  ultimately have "2 ^ (?k - 1) < ?r" by (rule le_less_trans)
  then have "q < 1 / 2 ^ (?k - 1)" using assms by (simp add: field_simps)
  moreover have "exponent_of q + 1 = - int (?k - 1)" using e pos by simp
  ultimately have hi: "q < 2 powi (exponent_of q + 1)"
    by (simp add: power_int_minus_divide)
  from lo hi show ?thesis ..
qed

lemma exponent_unique:
  assumes "2 powi e \<le> (q::rat)" "q < 2 powi (e + 1)" "2 powi e' \<le> q" "q < 2 powi (e' + 1)"
  shows "e = e'"
proof (rule ccontr)
  assume "e \<noteq> e'"
  then consider "e + 1 \<le> e'" | "e' + 1 \<le> e" by linarith
  then show False
  proof cases
    case 1
    then have "(2::rat) powi (e + 1) \<le> 2 powi e'" by (intro power_int_increasing) simp_all
    with assms show False by linarith
  next
    case 2
    then have "(2::rat) powi (e' + 1) \<le> 2 powi e" by (intro power_int_increasing) simp_all
    with assms show False by linarith
  qed
qed

lemma exponent_of_eq:
  "2 powi e \<le> q \<Longrightarrow> q < 2 powi (e + 1) \<Longrightarrow> exponent_of q = e"
proof -
  assume a: "2 powi e \<le> q" "q < 2 powi (e + 1)"
  have "(0::rat) < 2 powi e" by simp
  with a have "0 < q" by linarith
  from exponent_of_bounds [OF this] a show ?thesis
    by (intro exponent_unique [of "exponent_of q" q e]) simp_all
qed

lemma exponent_of_mono: "0 < x \<Longrightarrow> x \<le> y \<Longrightarrow> exponent_of x \<le> exponent_of y"
proof (rule ccontr)
  assume x: "0 < x" and xy: "x \<le> y" and "\<not> exponent_of x \<le> exponent_of y"
  then have "exponent_of y + 1 \<le> exponent_of x" by simp
  then have "(2::rat) powi (exponent_of y + 1) \<le> 2 powi exponent_of x"
    by (intro power_int_increasing) simp_all
  moreover have "y < 2 powi (exponent_of y + 1)" using exponent_of_bounds [of y] x xy by simp
  moreover have "2 powi exponent_of x \<le> x" using exponent_of_bounds [OF x] by simp
  ultimately show False using xy by linarith
qed


lemma binary64_0 [simp]: "binary64 0 = 0"
  by (simp add: binary64_def)

lemma binary64_nonneg: "0 \<le> q \<Longrightarrow> 0 \<le> binary64 q"
proof -
  assume q: "0 \<le> q"
  have "0 \<le> q / 2 powi ulp_exponent q" using q by simp
  then have "round_half_even 0 \<le> round_half_even (q / 2 powi ulp_exponent q)"
    by (rule round_half_even_mono)
  then have "0 \<le> round_half_even (q / 2 powi ulp_exponent q)"
    by (simp add: round_half_even_def)
  then show ?thesis by (simp add: binary64_def)
qed

lemma powi_split: "(2::rat) powi (a + b) = 2 powi a * 2 powi b"
  by (simp add: power_int_add)

lemma powi_ulp_52: "(2::rat) powi e = of_int (2 ^ 52) * 2 powi (e - 52)"
proof -
  have "e = 52 + (e - 52)" by simp
  then have "(2::rat) powi e = 2 powi (52 + (e - 52))" by (rule arg_cong)
  also have "\<dots> = 2 powi 52 * 2 powi (e - 52)" by (rule powi_split)
  finally show ?thesis by simp
qed

lemma powi_ulp_53: "(2::rat) powi (e + 1) = of_int (2 ^ 53) * 2 powi (e - 52)"
proof -
  have "e + 1 = 53 + (e - 52)" by simp
  then have "(2::rat) powi (e + 1) = 2 powi (53 + (e - 52))" by (rule arg_cong)
  also have "\<dots> = 2 powi 53 * 2 powi (e - 52)" by (rule powi_split)
  finally show ?thesis by simp
qed

lemma scaled_round_mono:
  fixes x y u :: rat
  assumes "0 < u" and "x \<le> y"
  shows "of_int (round_half_even (x / u)) * u \<le> of_int (round_half_even (y / u)) * u"
proof -
  have "x / u \<le> y / u" using assms by (simp add: divide_right_mono)
  then have "round_half_even (x / u) \<le> round_half_even (y / u)"
    by (rule round_half_even_mono)
  then have "(of_int (round_half_even (x / u)) :: rat) \<le> of_int (round_half_even (y / u))"
    by (simp only: of_int_le_iff)
  then show ?thesis using assms(1) by (simp add: mult_right_mono)
qed

lemma scaled_round_int:
  fixes u :: rat
  assumes "0 < u"
  shows "of_int (round_half_even (of_int k * u / u)) * u = of_int k * u"
  using assms by simp

lemma binary64_upper:
  assumes "0 < q" and e: "e = max (exponent_of q) (- 1022)"
  shows "binary64 q \<le> 2 powi (e + 1)"
proof -
  let ?u = "(2::rat) powi (e - 52)"
  have u: "0 < ?u" by simp
  have p: "ulp_exponent q = e - 52" using assms by (simp add: ulp_exponent_def)
  have "q < 2 powi (exponent_of q + 1)" using exponent_of_bounds [OF assms(1)] by simp
  also have "\<dots> \<le> 2 powi (e + 1)" using e by (intro power_int_increasing) simp_all
  finally have "q \<le> of_int (2 ^ 53) * ?u" by (simp only: powi_ulp_53 less_imp_le)
  from scaled_round_mono [OF u this]
  have "of_int (round_half_even (q / ?u)) * ?u \<le> of_int (2 ^ 53) * ?u"
    by (simp only: scaled_round_int [OF u])
  then have "of_int (round_half_even (q / ?u)) * ?u \<le> 2 powi (e + 1)"
    by (simp only: powi_ulp_53)
  then show ?thesis using assms(1) by (simp add: binary64_def p)
qed

lemma binary64_lower:
  assumes "0 < q" and "- 1022 \<le> exponent_of q"
  shows "2 powi exponent_of q \<le> binary64 q"
proof -
  let ?e = "exponent_of q"
  let ?u = "(2::rat) powi (?e - 52)"
  have u: "0 < ?u" by simp
  have p: "ulp_exponent q = ?e - 52" using assms by (simp add: ulp_exponent_def)
  have "2 powi ?e \<le> q" using exponent_of_bounds [OF assms(1)] by simp
  then have "of_int (2 ^ 52) * ?u \<le> q" by (simp only: powi_ulp_52 [symmetric])
  from scaled_round_mono [OF u this]
  have "of_int (2 ^ 52) * ?u \<le> of_int (round_half_even (q / ?u)) * ?u"
    by (simp only: scaled_round_int [OF u])
  then have "2 powi ?e \<le> of_int (round_half_even (q / ?u)) * ?u"
    by (simp only: powi_ulp_52 [symmetric])
  then show ?thesis using assms(1) by (simp add: binary64_def p)
qed

lemma binary64_mono:
  assumes "0 \<le> x" and "x \<le> y"
  shows "binary64 x \<le> binary64 y"
proof (cases "x = 0")
  case True
  then show ?thesis using assms binary64_nonneg [of y] by simp
next
  case False
  with assms have x: "0 < x" and y: "0 < y" by simp_all
  let ?ex = "max (exponent_of x) (- 1022)"
  let ?ey = "max (exponent_of y) (- 1022)"
  have le: "?ex \<le> ?ey" using exponent_of_mono [OF x assms(2)] by simp
  show ?thesis
  proof (cases "?ex = ?ey")
    case True
    then have p: "ulp_exponent x = ulp_exponent y"
      using x y by (simp add: ulp_exponent_def)
    have "(0::rat) < 2 powi ulp_exponent y" by simp
    from scaled_round_mono [OF this assms(2)] show ?thesis
      using x y by (simp add: binary64_def p)
  next
    case False
    with le have lt: "?ex + 1 \<le> ?ey" by simp
    then have ey: "?ey = exponent_of y" "- 1022 \<le> exponent_of y" by simp_all
    have "binary64 x \<le> 2 powi (?ex + 1)" using x by (rule binary64_upper) simp
    also have "\<dots> \<le> 2 powi ?ey" using lt by (intro power_int_increasing) simp_all
    also have "\<dots> = 2 powi exponent_of y" using ey by simp
    also have "\<dots> \<le> binary64 y" using y ey(2) by (rule binary64_lower)
    finally show ?thesis .
  qed
qed

lemma binary64_on_grid:
  assumes "q \<noteq> 0" and "q = of_int k * 2 powi ulp_exponent q"
  shows "binary64 q = q"
proof -
  have u: "(0::rat) < 2 powi ulp_exponent q" by simp
  have "of_int (round_half_even (q / 2 powi ulp_exponent q)) * (2::rat) powi ulp_exponent q
          = of_int (round_half_even (of_int k * 2 powi ulp_exponent q / 2 powi ulp_exponent q))
              * 2 powi ulp_exponent q"
    using assms(2) by simp
  also have "\<dots> = of_int k * 2 powi ulp_exponent q" by (rule scaled_round_int [OF u])
  also have "\<dots> = q" using assms(2) by simp
  finally show ?thesis using assms(1) by (simp add: binary64_def)
qed

lemma binary64_of_nat:
  assumes "n \<le> 2 ^ 53"
  shows "binary64 (of_nat n) = of_nat n"
proof (cases "n = 0")
  case True
  then show ?thesis by simp
next
  case False
  define q :: rat where "q = of_nat n"
  define e where "e = exponent_of q"
  have q: "0 < q" "1 \<le> q" using False by (simp_all add: q_def)
  have "int n \<le> 2 ^ 53" using assms by (metis of_nat_le_iff of_nat_numeral of_nat_power)
  then have "(of_int (int n) :: rat) \<le> of_int (2 ^ 53)" by (simp only: of_int_le_iff)
  then have le: "q \<le> 2 powi 53" by (simp add: q_def)
  from exponent_of_bounds [OF q(1)]
  have b: "2 powi e \<le> q" "q < 2 powi (e + 1)" by (simp_all add: e_def)
  have e0: "0 \<le> e"
  proof (rule ccontr)
    assume "\<not> 0 \<le> e"
    then have "e + 1 \<le> 0" by simp
    then have "(2::rat) powi (e + 1) \<le> 2 powi 0" by (intro power_int_increasing) simp_all
    with b(2) q(2) show False by simp
  qed
  have e53: "e \<le> 53"
  proof (rule ccontr)
    assume "\<not> e \<le> 53"
    then have "53 + 1 \<le> e" by simp
    then have "(2::rat) powi (53 + 1) \<le> 2 powi e" by (intro power_int_increasing) simp_all
    moreover have "(2::rat) powi 53 < 2 powi (53 + 1)"
      by (intro power_int_strict_increasing) simp_all
    ultimately show False using b(1) le by linarith
  qed
  have p: "ulp_exponent q = e - 52" using e0 q(1) by (simp add: ulp_exponent_def e_def)
  have "\<exists>k. q = of_int k * 2 powi ulp_exponent q"
  proof (cases "e = 53")
    case True
    with b(1) le have "q = 2 powi 53" by simp
    also have "\<dots> = of_int (2 ^ 52) * 2 powi (53 - 52)" by (rule powi_ulp_52)
    finally have "q = of_int (2 ^ 52) * 2 powi ulp_exponent q" using True p by simp
    then show ?thesis ..
  next
    case False
    with e53 have neg: "e - 52 \<le> 0" by simp
    have "(2::rat) powi (e - 52) * 2 powi (52 - e) = 2 powi ((e - 52) + (52 - e))"
      by (rule powi_split [symmetric])
    then have one: "(2::rat) powi (e - 52) * 2 powi (52 - e) = 1" by simp
    have "(2::rat) powi (52 - e) = of_int (2 ^ nat (52 - e))"
      using neg by (simp add: power_int_def)
    with one have unit: "of_int (2 ^ nat (52 - e)) * (2::rat) powi (e - 52) = 1"
      by (simp add: mult.commute)
    have qn: "q = of_int (int n)" by (simp add: q_def)
    have "of_int (int n * 2 ^ nat (52 - e)) * (2::rat) powi (e - 52)
            = of_int (int n) * (of_int (2 ^ nat (52 - e)) * 2 powi (e - 52))"
      by (simp only: of_int_mult mult.assoc)
    also have "\<dots> = q" by (simp only: unit qn mult_1_right)
    finally have "q = of_int (int n * 2 ^ nat (52 - e)) * 2 powi ulp_exponent q"
      by (simp only: p)
    then show ?thesis ..
  qed
  then obtain k where "q = of_int k * 2 powi ulp_exponent q" ..
  with q(1) have "binary64 q = q" by (intro binary64_on_grid [of q k]) simp_all
  then show ?thesis by (simp add: q_def)
qed

lemma binary64_1 [simp]: "binary64 1 = 1"
  using binary64_of_nat [of 1] by simp

lemma binary64_eval:
  assumes "2 powi e \<le> \<bar>q\<bar>" and "\<bar>q\<bar> < 2 powi (e + 1)" and "- 1022 \<le> e"
  shows "binary64 q = of_int (round_half_even (q / 2 powi (e - 52))) * 2 powi (e - 52)"
proof -
  have "exponent_of \<bar>q\<bar> = e" using assms(1,2) by (rule exponent_of_eq)
  then have "ulp_exponent q = e - 52" using assms(3) by (simp add: ulp_exponent_def)
  moreover have "q \<noteq> 0"
  proof
    assume "q = 0"
    with assms(1) have "(2::rat) powi e \<le> 0" by simp
    moreover have "(0::rat) < 2 powi e" by (rule zero_less_power_int) simp
    ultimately show False by linarith
  qed
  ultimately show ?thesis by (simp add: binary64_def)
qed

lemma binary64_tie_53: "binary64 (2 ^ 53 + 1) = 2 ^ 53"
proof -
  have "binary64 (2 ^ 53 + 1)
          = of_int (round_half_even ((2 ^ 53 + 1) / 2 powi (53 - 52))) * 2 powi (53 - 52)"
    by (rule binary64_eval) simp_all
  also have "\<dots> = 2 ^ 53"
    by code_simp
  finally show ?thesis .
qed

subsection \<open>Sums, extrema and rounding\<close>

lemma binary64_unit: "0 \<le> c \<Longrightarrow> c \<le> 1 \<Longrightarrow> 0 \<le> binary64 c \<and> binary64 c \<le> 1"
  using binary64_nonneg [of c] binary64_mono [of c 1] by simp

lemma fadd_unit_step:
  assumes "0 \<le> a" and "a \<le> of_nat k" and "k \<le> 2 ^ 53" and "0 \<le> c" and "c \<le> 1"
  shows "0 \<le> fadd a c \<and> fadd a c \<le> of_nat (min (Suc k) (2 ^ 53))"
proof -
  have a: "0 \<le> binary64 a" "binary64 a \<le> of_nat k"
    using assms(1,2,3) binary64_nonneg [of a] binary64_mono [of a "of_nat k"]
    by (simp_all add: binary64_of_nat)
  have c: "0 \<le> binary64 c" "binary64 c \<le> 1"
    using binary64_unit [OF assms(4,5)] by simp_all
  have lo: "0 \<le> binary64 a + binary64 c" using a c by simp
  have hi: "binary64 a + binary64 c \<le> of_nat (Suc k)" using a c by simp
  have "fadd a c \<le> binary64 (of_nat (Suc k))"
    unfolding fadd_def using lo hi by (rule binary64_mono)
  also have "binary64 (of_nat (Suc k)) = of_nat (min (Suc k) (2 ^ 53))"
  proof (cases "Suc k \<le> 2 ^ 53")
    case True
    from binary64_of_nat [OF True] True show ?thesis by (simp add: min_def)
  next
    case False
    with assms(3) have k: "k = 2 ^ 53" by simp
    have "binary64 (of_nat (Suc k)) = binary64 (2 ^ 53 + 1)" by (simp add: k add.commute)
    also have "\<dots> = 2 ^ 53" by (rule binary64_tie_53)
    finally show ?thesis using False by (simp add: min_def)
  qed
  finally have "fadd a c \<le> of_nat (min (Suc k) (2 ^ 53))" .
  moreover have "0 \<le> fadd a c" unfolding fadd_def using lo by (rule binary64_nonneg)
  ultimately show ?thesis by simp
qed

lemma foldl_fadd_unit_bounds:
  assumes "\<And>c. c \<in> set cs \<Longrightarrow> 0 \<le> c \<and> c \<le> 1"
    and "0 \<le> a" and "a \<le> of_nat k" and "k \<le> 2 ^ 53"
  shows "\<exists>k'. k' \<le> 2 ^ 53 \<and> k' \<le> k + length cs
           \<and> 0 \<le> foldl fadd a cs \<and> foldl fadd a cs \<le> of_nat k'"
  using assms
proof (induction cs arbitrary: a k)
  case Nil
  then show ?case by auto
next
  case (Cons c cs)
  have c: "0 \<le> c" "c \<le> 1" using Cons.prems(1) [of c] by simp_all
  let ?k = "min (Suc k) (2 ^ 53)"
  from fadd_unit_step [OF Cons.prems(2,3,4) c]
  have step: "0 \<le> fadd a c" "fadd a c \<le> of_nat ?k" by simp_all
  have "\<exists>k'. k' \<le> 2 ^ 53 \<and> k' \<le> ?k + length cs
           \<and> 0 \<le> foldl fadd (fadd a c) cs \<and> foldl fadd (fadd a c) cs \<le> of_nat k'"
    using Cons.prems(1) step by (intro Cons.IH) simp_all
  then obtain k' where "k' \<le> 2 ^ 53" "k' \<le> ?k + length cs"
    "0 \<le> foldl fadd (fadd a c) cs" "foldl fadd (fadd a c) cs \<le> of_nat k'" by blast
  then show ?case by (intro exI [of _ k']) simp
qed

lemma py_sum_unit_bounds:
  assumes "\<And>c. c \<in> set cs \<Longrightarrow> 0 \<le> c \<and> c \<le> 1"
  shows "\<exists>k. k \<le> 2 ^ 53 \<and> k \<le> length cs \<and> 0 \<le> py_sum cs \<and> py_sum cs \<le> of_nat k"
  using foldl_fadd_unit_bounds [OF assms, where a = 0 and k = 0] by (simp add: py_sum_def)

lemma avg_of_unit_bounds:
  assumes "\<And>x. x \<in> set xs \<Longrightarrow> 0 \<le> x \<and> x \<le> 1"
  shows "0 \<le> avg_of xs \<and> avg_of xs \<le> 1"
proof (cases "xs = []")
  case True
  then show ?thesis by (simp add: avg_of_def)
next
  case False
  from py_sum_unit_bounds [OF assms]
  obtain k where k: "k \<le> 2 ^ 53" "k \<le> length xs" "0 \<le> py_sum xs" "py_sum xs \<le> of_nat k"
    by blast
  have s: "0 \<le> binary64 (py_sum xs)" "binary64 (py_sum xs) \<le> of_nat k"
    using k binary64_nonneg [of "py_sum xs"] binary64_mono [of "py_sum xs" "of_nat k"]
    by (simp_all add: binary64_of_nat)
  have "(of_nat k :: rat) \<le> of_nat (length xs)" using k(2) by simp
  then have "binary64 (of_nat k) \<le> binary64 (of_nat (length xs))"
    by (intro binary64_mono) simp_all
  then have n: "of_nat k \<le> binary64 (of_nat (length xs))"
    using k(1) by (simp add: binary64_of_nat)
  have "(1::rat) \<le> of_nat (length xs)" using False by (cases xs) simp_all
  then have "binary64 1 \<le> binary64 (of_nat (length xs))"
    by (intro binary64_mono) simp_all
  then have pos: "0 < binary64 (of_nat (length xs))" by simp
  have "0 \<le> binary64 (py_sum xs) / binary64 (of_nat (length xs))"
    using s(1) pos by simp
  moreover have "binary64 (py_sum xs) / binary64 (of_nat (length xs)) \<le> 1"
    using s(2) n pos by (simp add: divide_le_eq)
  ultimately show ?thesis
    using False binary64_unit [of "binary64 (py_sum xs) / binary64 (of_nat (length xs))"]
    by (simp add: avg_of_def fdiv_def)
qed

lemma foldl_pick_mem:
  "(\<And>m c. f m c = m \<or> f m c = c) \<Longrightarrow> foldl f a xs \<in> insert a (set xs)"
proof (induction xs arbitrary: a)
  case Nil
  then show ?case by simp
next
  case (Cons x xs)
  from Cons.prems have "f a x = a \<or> f a x = x" by simp
  moreover have "foldl f (f a x) xs \<in> insert (f a x) (set xs)"
    using Cons.prems by (intro Cons.IH) simp
  ultimately show ?case by auto
qed

lemma py_min_mem: "xs \<noteq> [] \<Longrightarrow> py_min xs \<in> set xs"
  using foldl_pick_mem [of "\<lambda>m c. if binary64 c < binary64 m then c else m"]
  by (cases xs) auto

lemma py_max_mem: "xs \<noteq> [] \<Longrightarrow> py_max xs \<in> set xs"
  using foldl_pick_mem [of "\<lambda>m c. if binary64 m < binary64 c then c else m"]
  by (cases xs) auto

lemma round_half_even_bounds: "\<lfloor>q\<rfloor> \<le> round_half_even q \<and> round_half_even q \<le> \<lceil>q\<rceil>"
proof -
  have "q \<noteq> of_int \<lfloor>q\<rfloor> \<Longrightarrow> \<lceil>q\<rceil> = \<lfloor>q\<rfloor> + 1"
    by (metis ceiling_altdef)
  moreover have "q = of_int \<lfloor>q\<rfloor> \<Longrightarrow> round_half_even q = \<lfloor>q\<rfloor>"
    by (simp add: round_half_even_def Let_def)
  moreover have "\<lfloor>q\<rfloor> \<le> \<lceil>q\<rceil>" by (simp add: floor_le_ceiling)
  ultimately show ?thesis
    by (cases "q = of_int \<lfloor>q\<rfloor>") (auto simp: round_half_even_def Let_def)
qed

lemma py_round_unit_bounds:
  assumes "0 \<le> q" "q \<le> 1"
  shows "0 \<le> py_round q nd \<and> py_round q nd \<le> 1"
proof -
  let ?s = "(10::rat) ^ nd"
  let ?x = "binary64 q"
  have x: "0 \<le> ?x" "?x \<le> 1" using binary64_unit [OF assms] by simp_all
  have s: "0 < ?s" by simp
  have "0 \<le> ?x * ?s" using x by simp
  then have "0 \<le> \<lfloor>?x * ?s\<rfloor>" by simp
  then have lo: "0 \<le> round_half_even (?x * ?s)"
    using round_half_even_bounds [of "?x * ?s"] by linarith
  have "?x * ?s \<le> of_int (10 ^ nd)" using x by (simp add: mult_left_le_one_le)
  then have "\<lceil>?x * ?s\<rceil> \<le> 10 ^ nd" by (simp only: ceiling_le_iff)
  then have "round_half_even (?x * ?s) \<le> 10 ^ nd"
    using round_half_even_bounds [of "?x * ?s"] by linarith
  then have "(of_int (round_half_even (?x * ?s)) :: rat) \<le> of_int (10 ^ nd)"
    by (simp only: of_int_le_iff)
  then have hi: "(of_int (round_half_even (?x * ?s)) :: rat) \<le> ?s" by simp
  from lo hi s show ?thesis
    by (simp add: py_round_def divide_le_eq)
qed

lemma py_round_zero: "py_round 0 nd = 0"
  by (simp add: py_round_def round_half_even_def)

lemma max_float_ge: "2 ^ 53 \<le> max_float"
proof -
  define m :: rat where "m = 2 ^ 971"
  have "(2::rat) ^ 53 \<le> 2 ^ 971" by (rule power_increasing) simp_all
  then have m: "2 ^ 53 \<le> m" by (simp only: m_def)
  then have "0 \<le> m" by (rule order_trans [rotated]) simp
  then have "1 * m \<le> (2 ^ 53 - 1) * m" by (intro mult_right_mono) simp_all
  with m have "2 ^ 53 \<le> (2 ^ 53 - 1) * m" by simp
  then show ?thesis by (simp only: max_float_def m_def)
qed

lemma finite64_bounded:
  assumes "0 \<le> q" and "q \<le> of_nat k" and "k \<le> 2 ^ 53"
  shows "finite64 q"
proof -
  have "binary64 q \<le> binary64 (of_nat k)" using assms(1,2) by (rule binary64_mono)
  also have "\<dots> = of_nat k" using assms(3) by (rule binary64_of_nat)
  also have "\<dots> \<le> of_nat (2 ^ 53)" using assms(3) by (simp only: of_nat_le_iff)
  also have "\<dots> = (2::rat) ^ 53" by simp
  also have "\<dots> \<le> max_float" by (rule max_float_ge)
  finally have "binary64 q \<le> max_float" .
  moreover have "0 \<le> binary64 q" using assms(1) by (rule binary64_nonneg)
  ultimately show ?thesis by (simp add: finite64_def)
qed

lemma sums_finite_unit_from:
  assumes "\<And>c. c \<in> set cs \<Longrightarrow> 0 \<le> c \<and> c \<le> 1"
    and "0 \<le> a" and "a \<le> of_nat k" and "k \<le> 2 ^ 53"
  shows "sums_finite a cs"
  using assms
proof (induction cs arbitrary: a k)
  case Nil
  then show ?case by (simp add: finite64_bounded)
next
  case (Cons c cs)
  have c: "0 \<le> c" "c \<le> 1" using Cons.prems(1) [of c] by simp_all
  from fadd_unit_step [OF Cons.prems(2,3,4) c]
  have step: "0 \<le> fadd a c" "fadd a c \<le> of_nat (min (Suc k) (2 ^ 53))" by simp_all
  have "sums_finite (fadd a c) cs"
    using Cons.prems(1) step by (intro Cons.IH [where k = "min (Suc k) (2 ^ 53)"]) simp_all
  moreover have "finite64 a" using Cons.prems(2,3,4) by (rule finite64_bounded)
  moreover have "finite64 c" using c finite64_bounded [of c 1] by simp
  ultimately show ?case by simp
qed

lemma sums_finite_unit:
  "(\<And>c. c \<in> set cs \<Longrightarrow> 0 \<le> c \<and> c \<le> 1) \<Longrightarrow> sums_finite 0 cs"
  using sums_finite_unit_from [where a = 0 and k = 0] by simp

subsection \<open>What a call returns\<close>

lemma computed_metadata_stats:
  "computed_metadata self fp n cs ''avg_confidence'' = Some (PyFloat (py_round (avg_of cs) 4))"
  "computed_metadata self fp n cs ''min_confidence'' =
     Some (PyFloat (if cs \<noteq> [] then py_round (py_min cs) 4 else 0))"
  "computed_metadata self fp n cs ''max_confidence'' =
     Some (PyFloat (if cs \<noteq> [] then py_round (py_max cs) 4 else 0))"
  "computed_metadata self fp n cs ''num_text_blocks'' = Some (PyInt (int n))"
  by (simp_all add: computed_metadata_def)

lemma process_ocr_result_returns:
  assumes "detections P raw = Inr ds"
    and "format_text_blocks (map det_text ds) (map confidence ds) = Inr body"
  shows "process_ocr_result self P raw fp extra =
           Inr (body, (case extra of
                        None \<Rightarrow> computed_metadata self fp (length ds) (map confidence ds)
                      | Some e \<Rightarrow> computed_metadata self fp (length ds) (map confidence ds) ++ e))"
  using assms by (simp add: process_ocr_result_def Let_def split: option.splits)

lemma process_ocr_result_not_raised:
  assumes "detections P raw = Inr ds" and "\<not> isl (process_ocr_result self P raw fp extra)"
  shows "\<exists>body. format_text_blocks (map det_text ds) (map confidence ds) = Inr body"
  using assms
  by (cases "format_text_blocks (map det_text ds) (map confidence ds)")
     (simp_all add: process_ocr_result_def)

lemma detections_raw_batch:
  "detections P raw_batch =
     Inr [\<lparr>det_text = PyStr ''A'', confidence = 9 / 10, bbox = PyNone, block_index = 0\<rparr>,
          \<lparr>det_text = PyStr ''B'', confidence = 8 / 10, bbox = PyNone, block_index = 1\<rparr>]"
  by (simp add: raw_batch_def detections_def dict_get_def enumerate_from0_def batch_item_def
      upt_rec)

lemma format_raw_batch:
  "format_text_blocks [PyStr ''A'', PyStr ''B''] [9 / 10, 8 / 10] =
     Inr (''[Block 1] (conf: 0.90): A'' @ [CHR 0x0A] @ ''[Block 2] (conf: 0.80): B''
          @ separator @ ''A'' @ [CHR 0x0A] @ ''B'')"
  by code_simp

lemma process_raw_batch:
  "process_ocr_result self P raw_batch fp None =
     Inr (''[Block 1] (conf: 0.90): A'' @ [CHR 0x0A] @ ''[Block 2] (conf: 0.80): B''
          @ separator @ ''A'' @ [CHR 0x0A] @ ''B'',
          computed_metadata self fp 2 [9 / 10, 8 / 10])"
  using process_ocr_result_returns [OF detections_raw_batch, where self = self and fp = fp
      and extra = None and P = P] format_raw_batch
  by (simp add: numeral_2_eq_2)

lemma all_strs_map_PyStr: "all_strs (map PyStr ts) = Some ts"
  by (induction ts) simp_all

lemma format_text_blocks_strs:
  "ts \<noteq> [] \<Longrightarrow> format_text_blocks (map PyStr ts) cs =
     Inr (join_lines (detailed_lines 1 (zip ts cs)) @ separator @ join_lines ts)"
  by (simp add: format_text_blocks_def all_strs_map_PyStr)

lemma detections_raw_zero_confidence:
  "detections P raw_zero_confidence =
     Inr [\<lparr>det_text = PyStr ''A'', confidence = 0, bbox = PyNone, block_index = 0\<rparr>]"
  by (simp add: raw_zero_confidence_def detections_def dict_get_def enumerate_from0_def
      batch_item_def)

lemma process_raw_zero_confidence:
  "process_ocr_result self P raw_zero_confidence fp None =
     Inr (join_lines (detailed_lines 1 (zip [''A''] [0])) @ separator @ join_lines [''A''],
          computed_metadata self fp 1 [0])"
  using process_ocr_result_returns [OF detections_raw_zero_confidence, where self = self
      and fp = fp and extra = None and P = P] format_text_blocks_strs [of "[''A'']" "[0]"]
  by simp

subsection \<open>Lines, separator and splitting\<close>

lemma digit_char_not_nl: "d < 10 \<Longrightarrow> CHR 0x0A \<noteq> digit_char d"
proof -
  assume "d < 10"
  then have "d \<in> {0, 1, 2, 3, 4, 5, 6, 7, 8, 9}" by auto
  then show ?thesis by (auto simp: digit_char_def)
qed

lemma digits_of_no_nl: "CHR 0x0A \<notin> set (digits_of n)"
proof (induction n rule: digits_of.induct)
  case (1 n)
  show ?case
  proof (cases "n < 10")
    case True
    then show ?thesis by (simp add: digits_of.simps [of n] digit_char_not_nl)
  next
    case False
    with 1 have "CHR 0x0A \<notin> set (digits_of (n div 10))" by simp
    moreover have "CHR 0x0A \<noteq> digit_char (n mod 10)" by (simp add: digit_char_not_nl)
    ultimately show ?thesis using False by (simp add: digits_of.simps [of n])
  qed
qed

lemma format_2f_no_nl: "CHR 0x0A \<notin> set (format_2f q)"
proof -
  have "\<And>n. CHR 0x0A \<noteq> digit_char (n mod 100 div 10)"
    by (rule digit_char_not_nl) (simp add: div_less_iff_less_mult)
  moreover have "\<And>n. CHR 0x0A \<noteq> digit_char (n mod 10)"
    by (rule digit_char_not_nl) simp
  ultimately show ?thesis
    by (simp add: format_2f_def Let_def digits_of_no_nl)
qed

lemma block_line_no_nl: "CHR 0x0A \<notin> set t \<Longrightarrow> CHR 0x0A \<notin> set (block_line i t c)"
  by (simp add: block_line_def digits_of_no_nl format_2f_no_nl)

lemma block_line_hd: "block_line i t c = CHR ''['' # tl (block_line i t c)"
  by (simp add: block_line_def)

lemma detailed_lines_ok:
  "(\<And>p. p \<in> set ps \<Longrightarrow> CHR 0x0A \<notin> set (fst p)) \<Longrightarrow> l \<in> set (detailed_lines i ps)
     \<Longrightarrow> CHR 0x0A \<notin> set l \<and> l \<noteq> []"
proof (induction i ps rule: detailed_lines.induct)
  case (1 i)
  then show ?case by simp
next
  case (2 i t conf rest)
  show ?case
  proof (cases "l = block_line i t conf")
    case True
    have "CHR 0x0A \<notin> set t" using "2.prems"(1) [of "(t, conf)"] by simp
    then have "CHR 0x0A \<notin> set l" using True by (simp add: block_line_no_nl)
    moreover have "l \<noteq> []" using True block_line_hd [of i t conf] by auto
    ultimately show ?thesis by simp
  next
    case False
    with "2.prems" have "l \<in> set (detailed_lines (Suc i) rest)" by simp
    moreover have "\<And>p. p \<in> set rest \<Longrightarrow> CHR 0x0A \<notin> set (fst p)" using "2.prems"(1) by simp
    ultimately show ?thesis using "2.IH" by blast
  qed
qed

lemma separator_Cons: "separator = CHR 0x0A # CHR 0x0A # heading @ [CHR 0x0A]"
  by (simp add: separator_def)

lemma after_first_here: "sep \<noteq> [] \<Longrightarrow> after_first sep (sep @ r) = Some r"
  by (cases sep) simp_all

lemma after_first_skip_line:
  "CHR 0x0A \<notin> set l \<Longrightarrow> after_first separator (l @ r) = after_first separator r"
proof (induction l)
  case Nil
  then show ?case by simp
next
  case (Cons c l)
  then have "c \<noteq> CHR 0x0A" by auto
  then have "take (length separator) (c # l @ r) \<noteq> separator"
    by (auto simp: separator_Cons)
  with Cons show ?case by simp
qed

lemma after_first_skip_nl:
  "l \<noteq> [] \<Longrightarrow> CHR 0x0A \<notin> set l \<Longrightarrow>
     after_first separator (CHR 0x0A # l @ r) = after_first separator (l @ r)"
proof -
  assume "l \<noteq> []" and nl: "CHR 0x0A \<notin> set l"
  then obtain c l' where l: "l = c # l'" by (cases l) auto
  with nl have "c \<noteq> CHR 0x0A" by auto
  then have "take (length separator) (CHR 0x0A # l @ r) \<noteq> separator"
    by (auto simp: separator_Cons l)
  then show ?thesis by simp
qed

lemma after_first_join_lines:
  "(\<And>l. l \<in> set ls \<Longrightarrow> CHR 0x0A \<notin> set l \<and> l \<noteq> []) \<Longrightarrow>
     after_first separator (join_lines ls @ separator @ r) = Some r"
proof (induction ls rule: join_lines.induct)
  case 1
  have "separator \<noteq> []" by (simp add: separator_Cons)
  then show ?case by (simp add: after_first_here)
next
  case (2 l)
  then have "CHR 0x0A \<notin> set l" by simp
  moreover have "separator \<noteq> []" by (simp add: separator_Cons)
  ultimately show ?case by (simp add: after_first_skip_line after_first_here)
next
  case (3 l l' ls)
  have l: "CHR 0x0A \<notin> set l" and l': "CHR 0x0A \<notin> set l'" "l' \<noteq> []"
    using "3.prems" by simp_all
  have rest: "\<And>x. x \<in> set (l' # ls) \<Longrightarrow> CHR 0x0A \<notin> set x \<and> x \<noteq> []"
    using "3.prems" by simp
  have "join_lines (l # l' # ls) @ separator @ r
          = l @ (CHR 0x0A # join_lines (l' # ls) @ separator @ r)"
    by simp
  then have "after_first separator (join_lines (l # l' # ls) @ separator @ r)
          = after_first separator (CHR 0x0A # join_lines (l' # ls) @ separator @ r)"
    using after_first_skip_line [OF l, of "CHR 0x0A # join_lines (l' # ls) @ separator @ r"]
    by simp
  also have "\<dots> = after_first separator (join_lines (l' # ls) @ separator @ r)"
  proof (cases ls)
    case Nil
    then show ?thesis using after_first_skip_nl [OF l'(2) l'(1), of "separator @ r"] by simp
  next
    case (Cons l'' ls')
    then show ?thesis
      using after_first_skip_nl [OF l'(2) l'(1), of "CHR 0x0A # join_lines (l'' # ls') @ separator @ r"]
      by simp
  qed
  also have "\<dots> = Some r" using "3.IH" [OF rest] by simp
  finally show ?case .
qed

lemma split_nl_not_Nil: "split_nl s \<noteq> []"
  by (induction s) (auto split: list.splits)

lemma split_nl_line: "CHR 0x0A \<notin> set l \<Longrightarrow>
  split_nl (l @ r) = (l @ hd (split_nl r)) # tl (split_nl r)"
proof (induction l)
  case Nil
  then show ?case using split_nl_not_Nil [of r] by simp
next
  case (Cons c l)
  then have "c \<noteq> CHR 0x0A" by auto
  with Cons show ?case by simp
qed

lemma split_nl_plain: "CHR 0x0A \<notin> set l \<Longrightarrow> split_nl l = [l]"
  using split_nl_line [of l "[]"] by simp

lemma split_nl_join_lines:
  "ts \<noteq> [] \<Longrightarrow> (\<And>t. t \<in> set ts \<Longrightarrow> CHR 0x0A \<notin> set t) \<Longrightarrow> split_nl (join_lines ts) = ts"
proof (induction ts rule: join_lines.induct)
  case 1
  then show ?case by simp
next
  case (2 l)
  then show ?case by (simp add: split_nl_plain)
next
  case (3 l l' ls)
  have l: "CHR 0x0A \<notin> set l" using "3.prems" by simp
  have "split_nl (join_lines (l' # ls)) = l' # ls" using 3 by simp
  then have "split_nl (CHR 0x0A # join_lines (l' # ls)) = [] # l' # ls" by simp
  moreover have "join_lines (l # l' # ls) = l @ (CHR 0x0A # join_lines (l' # ls))" by simp
  ultimately show ?case using split_nl_line [OF l, of "CHR 0x0A # join_lines (l' # ls)"]
    by simp
qed

lemma detailed_lines_length: "length (detailed_lines k ps) = length ps"
  by (induction k ps rule: detailed_lines.induct) simp_all

lemma detailed_lines_nth:
  "i < length ps \<Longrightarrow> detailed_lines k ps ! i = block_line (k + i) (fst (ps ! i)) (snd (ps ! i))"
proof (induction k ps arbitrary: i rule: detailed_lines.induct)
  case (1 k)
  then show ?case by simp
next
  case (2 k t conf rest)
  then show ?case by (cases i) simp_all
qed

subsection \<open>Extensions\<close>

lemma lower_GIF: "str_lower ''.GIF'' = ''.gif''"
  by code_simp

lemma lower_gif: "str_lower ''.gif'' = ''.gif''"
  by code_simp

lemma gif_not_supported: "''.gif'' \<notin> supported_formats"
  by (simp add: supported_formats_def)

subsection \<open>The flat shape\<close>

lemma collect_flat_item:
  "collect flat_item ps =
     Inr (map (\<lambda>p. \<lparr>det_text = snd p, confidence = 1, bbox = PyNone, block_index = fst p\<rparr>)
            (filter (\<lambda>p. py_truthy (snd p)) ps))"
  by (induction ps) (auto simp: flat_item_def)


lemma map_snd_enumerate_from0: "map snd (enumerate_from0 xs) = xs"
  by (simp add: enumerate_from0_def)

lemma detections_flat:
  "detections P (PyList (PyStr s # rest)) =
     Inr (map (\<lambda>p. \<lparr>det_text = snd p, confidence = 1, bbox = PyNone, block_index = fst p\<rparr>)
            (filter (\<lambda>p. py_truthy (snd p)) (enumerate_from0 (PyStr s # rest))))"
  by (simp add: detections_def collect_flat_item)

lemma flat_texts:
  "map snd (filter (\<lambda>p. py_truthy (snd p)) (enumerate_from0 xs)) = filter py_truthy xs"
proof -
  have "filter py_truthy (map snd (enumerate_from0 xs))
          = map snd (filter (py_truthy \<circ> snd) (enumerate_from0 xs))"
    by (rule filter_map)
  then show ?thesis by (simp add: map_snd_enumerate_from0 comp_def)
qed


lemma truthy_strs: "filter py_truthy (map PyStr ts) = map PyStr (filter (\<lambda>t. t \<noteq> []) ts)"
  by (induction ts) simp_all

lemma format_text_blocks_strs_returns:
  "\<exists>body. format_text_blocks (map PyStr ts) cs = Inr body"
  by (cases "ts = []") (simp_all add: format_text_blocks_def all_strs_map_PyStr)



subsection \<open>Rounding to a number of places\<close>

lemma round_half_even_close: "\<bar>of_int (round_half_even x) - x\<bar> \<le> 1 / 2"
proof -
  have "of_int \<lfloor>x\<rfloor> \<le> x" and "x < of_int \<lfloor>x\<rfloor> + 1" by linarith+
  then show ?thesis
    by (auto simp: round_half_even_def Let_def abs_le_iff)
qed

lemma py_round_close: "\<bar>py_round q nd - binary64 q\<bar> \<le> 1 / (2 * 10 ^ nd)"
proof -
  let ?s = "(10::rat) ^ nd"
  let ?x = "binary64 q"
  have s: "0 < ?s" by simp
  have "py_round q nd - ?x = (of_int (round_half_even (?x * ?s)) - ?x * ?s) / ?s"
    using s by (simp add: py_round_def diff_divide_distrib)
  then have "\<bar>py_round q nd - ?x\<bar> = \<bar>of_int (round_half_even (?x * ?s)) - ?x * ?s\<bar> / ?s"
    using s by simp
  also have "\<dots> \<le> (1 / 2) / ?s"
    using s round_half_even_close [of "?x * ?s"] by (simp only: divide_right_mono less_imp_le)
  finally show ?thesis by simp
qed

lemma py_round_decimal: "\<exists>m::int. py_round q nd = of_int m / 10 ^ nd"
  by (auto simp: py_round_def)

lemma process_ocr_result_isl:
  "isl (process_ocr_result self P raw fp extra) = isl (process_ocr_result self P raw fp extra')"
proof (cases "detections P raw")
  case (Inl e)
  then show ?thesis by (simp add: process_ocr_result_def)
next
  case (Inr ds)
  then show ?thesis
    by (cases "format_text_blocks (map det_text ds) (map confidence ds)")
       (simp_all add: process_ocr_result_def Let_def)
qed

lemma detections_raw_tie:
  "detections P raw_tie =
     Inr [\<lparr>det_text = PyStr ''A'', confidence = 1 / 32, bbox = PyNone, block_index = 0\<rparr>,
          \<lparr>det_text = PyStr ''B'', confidence = 0, bbox = PyNone, block_index = 1\<rparr>,
          \<lparr>det_text = PyStr ''C'', confidence = 0, bbox = PyNone, block_index = 2\<rparr>,
          \<lparr>det_text = PyStr ''D'', confidence = 0, bbox = PyNone, block_index = 3\<rparr>,
          \<lparr>det_text = PyStr ''E'', confidence = 0, bbox = PyNone, block_index = 4\<rparr>]"
  by (simp add: raw_tie_def detections_def dict_get_def enumerate_from0_def batch_item_def
      upt_rec)

lemma process_raw_tie_returns:
  "\<not> isl (process_ocr_result self P raw_tie fp extra)"
proof -
  obtain body where
    "format_text_blocks (map PyStr [''A'', ''B'', ''C'', ''D'', ''E'']) [1 / 32, 0, 0, 0, 0]
       = Inr body"
    using format_text_blocks_strs_returns by blast
  with process_ocr_result_returns [OF detections_raw_tie, where self = self and fp = fp
      and extra = extra and P = P and body = body]
  show ?thesis by simp
qed

text \<open>The float quotient \<^verbatim>\<open>0.03125 / 5\<close> lies above \<open>1/160\<close>, so that it rounds up to
  \<^verbatim>\<open>0.0063\<close>, while \<^verbatim>\<open>0.03125\<close> is a float and a tie, which rounds to the even \<^verbatim>\<open>0.0312\<close>.\<close>

lemma avg_raw_tie: "avg_of [1 / 32, 0, 0, 0, 0] = 3602879701896397 / 576460752303423488"
  by code_simp

lemma round_avg_raw_tie: "py_round (3602879701896397 / 576460752303423488) 4 = 63 / 10000"
  by code_simp

lemma round_max_raw_tie: "py_round (py_max [1 / 32, 0, 0, 0, 0]) 4 = 312 / 10000"
  by code_simp

lemma round_min_raw_tie: "py_round (py_min [1 / 32, 0, 0, 0, 0]) 4 = 0"
  by code_simp

lemma raw_tie_finite: "sums_finite 0 [1 / 32, 0, 0, 0, 0]"
  by (rule sums_finite_unit) auto

subsection \<open>Scores of the source records\<close>

lemma print_sources_scored:
  "(\<And>n. n \<in> set ns \<Longrightarrow> score n \<noteq> None) \<Longrightarrow> print_sources ns = Inr ()"
  by (induction ns) (auto split: option.splits)

lemma sum_scores_scored:
  "(\<And>n. n \<in> set ns \<Longrightarrow> score n \<noteq> None) \<Longrightarrow>
     sum_scores acc ns = Inr (foldl fadd acc (map (\<lambda>n. the (score n)) ns))"
proof (induction ns arbitrary: acc)
  case Nil
  then show ?case by simp
next
  case (Cons n ns)
  then obtain s where s: "score n = Some s" by auto
  have "sum_scores (fadd acc s) ns = Inr (foldl fadd (fadd acc s) (map (\<lambda>n. the (score n)) ns))"
    using Cons by simp
  with s show ?case by simp
qed

lemma make_results_scored:
  assumes "\<And>n. n \<in> set (source_nodes resp) \<Longrightarrow> score n \<noteq> None"
  shows "\<exists>r. make_results cname k elapsed resp = Inr r
           \<and> num_sources r = length (source_nodes resp)
           \<and> num_chunks r = k
           \<and> avg_similarity r
               = (if source_nodes resp = [] then 0
                  else fdiv (py_sum (map (\<lambda>n. the (score n)) (source_nodes resp)))
                         (of_nat (length (source_nodes resp))))"
  using sum_scores_scored [OF assms, where acc = 0] by (simp add: make_results_def py_sum_def)

lemma demo_scores_mean:
  "fdiv (py_sum [9 / 10, 8 / 10]) 2 = 1914029841632461 / 2251799813685248"
  by code_simp

lemma demo_scores_finite: "sums_finite 0 [9 / 10, 8 / 10]"
  by (rule sums_finite_unit) auto

section \<open>A confidence that cannot be coerced\<close>

text \<open>
  C1 (as the code has it). \<^verbatim>\<open>_process_ocr_result\<close> has no exception handler around
  \<^verbatim>\<open>float(confidence)\<close>. When the confidence of a detection cannot be coerced to a float,
  the exception leaves the call: nothing is returned and no detection is skipped on
  that account. This holds in the nested-list shape, for every line that passes the
  shape tests, and in the batch shape, for every text whose score is present.
\<close>

theorem coercion_failure_raises:
  assumes "py_float P conf = Inl err"
  shows "(line \<in> set lines \<and> py_truthy line \<and> py_len line = Inr n \<and> 2 \<le> n
            \<and> py_getitem line 1 = Inr pair \<and> is_list_or_tuple pair
            \<and> 2 \<le> length (elems pair) \<and> elems pair ! 1 = conf
          \<longrightarrow> isl (process_ocr_result self P (PyList (PyList lines # rest)) file_path extra_info))
       \<and> (dict_get_str kvs ''rec_texts'' = Some rec_texts \<and> py_iter rec_texts = Inr ts
            \<and> dict_get_str kvs ''rec_scores'' = Some rec_scores \<and> py_len rec_scores = Inr m
            \<and> i < length ts \<and> i < m \<and> py_getitem rec_scores i = Inr conf
          \<longrightarrow> isl (process_ocr_result self P (PyList (PyDict kvs # rest)) file_path extra_info))"
proof (intro conjI impI)
  assume a: "line \<in> set lines \<and> py_truthy line \<and> py_len line = Inr n \<and> 2 \<le> n
            \<and> py_getitem line 1 = Inr pair \<and> is_list_or_tuple pair
            \<and> 2 \<le> length (elems pair) \<and> elems pair ! 1 = conf"
  then have "py_float P (elems pair ! 1) = Inl err"
    using assms by simp
  with a have "isl (detections P (PyList (PyList lines # rest)))"
    by (intro detections_legacy_raises [where line = line and n = n and pair = pair]) simp_all
  then show "isl (process_ocr_result self P (PyList (PyList lines # rest)) file_path extra_info)"
    unfolding process_ocr_result_def by (rule isl_raising)
next
  assume a: "dict_get_str kvs ''rec_texts'' = Some rec_texts \<and> py_iter rec_texts = Inr ts
            \<and> dict_get_str kvs ''rec_scores'' = Some rec_scores \<and> py_len rec_scores = Inr m
            \<and> i < length ts \<and> i < m \<and> py_getitem rec_scores i = Inr conf"
  with assms have "isl (detections P (PyList (PyDict kvs # rest)))"
    by (intro detections_batch_raises [where rec_texts = rec_texts and ts = ts
          and rec_scores = rec_scores and m = m and i = i and conf = conf]) simp_all
  then show "isl (process_ocr_result self P (PyList (PyDict kvs # rest)) file_path extra_info)"
    unfolding process_ocr_result_def by (rule isl_raising)
qed

text \<open>An instance in the nested-list shape: the second of two lines has the confidence
  \<^verbatim>\<open>None\<close>.\<close>

theorem coercion_failure_raises_witness:
  "py_float no_parser PyNone = Inl TypeError
   \<and> PyList [PyNone, PyTuple [PyStr ''B'', PyNone]]
        \<in> set [PyList [PyNone, PyTuple [PyStr ''A'', PyFloat (9 / 10)]],
                PyList [PyNone, PyTuple [PyStr ''B'', PyNone]]]
   \<and> isl (process_ocr_result demo_reader no_parser raw_bad_confidence demo_path None)"
proof -
  have h: "py_float no_parser PyNone = Inl TypeError" by simp
  note inst = coercion_failure_raises [OF h,
      where line = "PyList [PyNone, PyTuple [PyStr ''B'', PyNone]]"
        and lines = "[PyList [PyNone, PyTuple [PyStr ''A'', PyFloat (9 / 10)]],
                      PyList [PyNone, PyTuple [PyStr ''B'', PyNone]]]"
        and n = 2 and pair = "PyTuple [PyStr ''B'', PyNone]"
        and self = demo_reader and rest = "[]" and file_path = demo_path
        and extra_info = None, THEN conjunct1]
  have "isl (process_ocr_result demo_reader no_parser raw_bad_confidence demo_path None)"
    unfolding raw_bad_confidence_def by (rule inst [THEN mp]) simp
  then show ?thesis using h by simp
qed

text \<open>The claim as written fails: with one good line and one line whose confidence is
  \<^verbatim>\<open>None\<close>, the call raises \<^verbatim>\<open>TypeError\<close> instead of returning the good detection.\<close>

theorem coercion_failure_counterexample:
  "process_ocr_result demo_reader no_parser raw_bad_confidence demo_path None = Inl TypeError"
proof -
  have "detections no_parser raw_bad_confidence = Inl TypeError"
    unfolding raw_bad_confidence_def by code_simp
  then show ?thesis by (simp add: process_ocr_result_def)
qed

section \<open>Mean, minimum and maximum confidence\<close>

text \<open>
  C2 (as the code has it). When every detection has a confidence in \<open>[0, 1]\<close>, the stored
  mean, minimum and maximum confidence (\<^verbatim>\<open>avg_confidence\<close>, \<^verbatim>\<open>min_confidence\<close>,
  \<^verbatim>\<open>max_confidence\<close> of the returned metadata, no extra metadata given) lie in \<open>[0, 1]\<close>,
  and all three are \<open>0\<close> when there is no detection. The converse does not hold.
\<close>

theorem confidence_stats_in_unit_interval:
  assumes "detections P raw = Inr ds"
    and "\<forall>d \<in> set ds. 0 \<le> confidence d \<and> confidence d \<le> 1"
    and "\<not> isl (process_ocr_result self P raw fp None)"
  shows "\<exists>a lo hi.
           meta_of (process_ocr_result self P raw fp None) ''avg_confidence'' = Some (PyFloat a)
         \<and> meta_of (process_ocr_result self P raw fp None) ''min_confidence'' = Some (PyFloat lo)
         \<and> meta_of (process_ocr_result self P raw fp None) ''max_confidence'' = Some (PyFloat hi)
         \<and> 0 \<le> a \<and> a \<le> 1 \<and> 0 \<le> lo \<and> lo \<le> 1 \<and> 0 \<le> hi \<and> hi \<le> 1
         \<and> (ds = [] \<longrightarrow> a = 0 \<and> lo = 0 \<and> hi = 0)"
proof -
  let ?cs = "map confidence ds"
  from process_ocr_result_not_raised [OF assms(1,3)]
  obtain body where f: "format_text_blocks (map det_text ds) (map confidence ds) = Inr body"
    by blast
  from process_ocr_result_returns [OF assms(1) f, where self = self and fp = fp
      and extra = None]
  have r: "process_ocr_result self P raw fp None
             = Inr (body, computed_metadata self fp (length ds) ?cs)"
    by simp
  have unit: "\<And>x. x \<in> set ?cs \<Longrightarrow> 0 \<le> x \<and> x \<le> 1"
    using assms(2) by auto
  let ?a = "py_round (avg_of ?cs) 4"
  let ?lo = "if ?cs \<noteq> [] then py_round (py_min ?cs) 4 else 0"
  let ?hi = "if ?cs \<noteq> [] then py_round (py_max ?cs) 4 else 0"
  have "0 \<le> avg_of ?cs \<and> avg_of ?cs \<le> 1"
    by (rule avg_of_unit_bounds) (rule unit)
  then have a: "0 \<le> ?a \<and> ?a \<le> 1"
    by (simp add: py_round_unit_bounds)
  have lo: "0 \<le> ?lo \<and> ?lo \<le> 1"
  proof (cases "?cs = []")
    case True
    then show ?thesis by simp
  next
    case False
    then have "0 \<le> py_min ?cs \<and> py_min ?cs \<le> 1"
      using py_min_mem [OF False] unit by blast
    with False show ?thesis by (simp add: py_round_unit_bounds)
  qed
  have hi: "0 \<le> ?hi \<and> ?hi \<le> 1"
  proof (cases "?cs = []")
    case True
    then show ?thesis by simp
  next
    case False
    then have "0 \<le> py_max ?cs \<and> py_max ?cs \<le> 1"
      using py_max_mem [OF False] unit by blast
    with False show ?thesis by (simp add: py_round_unit_bounds)
  qed
  have e: "ds = [] \<longrightarrow> ?a = 0 \<and> ?lo = 0 \<and> ?hi = 0"
    by (simp add: avg_of_def py_round_zero)
  have "meta_of (process_ocr_result self P raw fp None) ''avg_confidence'' = Some (PyFloat ?a)"
    and "meta_of (process_ocr_result self P raw fp None) ''min_confidence'' = Some (PyFloat ?lo)"
    and "meta_of (process_ocr_result self P raw fp None) ''max_confidence'' = Some (PyFloat ?hi)"
    by (simp_all add: r meta_of_def computed_metadata_stats)
  with a lo hi e show ?thesis by blast
qed


text \<open>An instance: the two detections of the batch scenario.\<close>

theorem confidence_stats_in_unit_interval_witness:
  "detections no_parser raw_batch =
     Inr [\<lparr>det_text = PyStr ''A'', confidence = 9 / 10, bbox = PyNone, block_index = 0\<rparr>,
          \<lparr>det_text = PyStr ''B'', confidence = 8 / 10, bbox = PyNone, block_index = 1\<rparr>]
   \<and> \<not> isl (process_ocr_result demo_reader no_parser raw_batch demo_path None)
   \<and> (\<exists>a lo hi.
         meta_of (process_ocr_result demo_reader no_parser raw_batch demo_path None)
           ''avg_confidence'' = Some (PyFloat a)
       \<and> meta_of (process_ocr_result demo_reader no_parser raw_batch demo_path None)
           ''min_confidence'' = Some (PyFloat lo)
       \<and> meta_of (process_ocr_result demo_reader no_parser raw_batch demo_path None)
           ''max_confidence'' = Some (PyFloat hi)
       \<and> 0 \<le> a \<and> a \<le> 1 \<and> 0 \<le> lo \<and> lo \<le> 1 \<and> 0 \<le> hi \<and> hi \<le> 1)"
proof -
  have d: "detections no_parser raw_batch =
     Inr [\<lparr>det_text = PyStr ''A'', confidence = 9 / 10, bbox = PyNone, block_index = 0\<rparr>,
          \<lparr>det_text = PyStr ''B'', confidence = 8 / 10, bbox = PyNone, block_index = 1\<rparr>]"
    by (rule detections_raw_batch)
  have b: "\<forall>d \<in> set [\<lparr>det_text = PyStr ''A'', confidence = 9 / 10, bbox = PyNone, block_index = 0\<rparr>,
          \<lparr>det_text = PyStr ''B'', confidence = 8 / 10, bbox = PyNone, block_index = 1\<rparr>].
          0 \<le> confidence d \<and> confidence d \<le> 1"
    by simp
  have r: "\<not> isl (process_ocr_result demo_reader no_parser raw_batch demo_path None)"
    by (simp add: process_raw_batch)
  from confidence_stats_in_unit_interval [OF d b r] d r show ?thesis
    by blast
qed

text \<open>The claim as written says the three values are non-zero for a non-empty list. One
  detection of confidence \<^verbatim>\<open>0.0\<close> gives a non-empty list with all three equal to \<open>0\<close>.\<close>

theorem confidence_stats_counterexample:
  "meta_of (process_ocr_result demo_reader no_parser raw_zero_confidence demo_path None)
       ''num_text_blocks'' = Some (PyInt 1)
   \<and> meta_of (process_ocr_result demo_reader no_parser raw_zero_confidence demo_path None)
       ''avg_confidence'' = Some (PyFloat 0)
   \<and> meta_of (process_ocr_result demo_reader no_parser raw_zero_confidence demo_path None)
       ''min_confidence'' = Some (PyFloat 0)
   \<and> meta_of (process_ocr_result demo_reader no_parser raw_zero_confidence demo_path None)
       ''max_confidence'' = Some (PyFloat 0)"
  by (simp add: process_raw_zero_confidence meta_of_def computed_metadata_stats avg_of_def
      py_sum_def fadd_def fdiv_def py_round_zero)

section \<open>The two sections of the formatted text\<close>

text \<open>
  C3 (as the code has it). For the empty detection list \<^verbatim>\<open>_format_text_blocks\<close> returns
  the empty string at once: no section, no separator, and no error. For every non-empty
  list of texts the result is the annotated section, the separator and the plain-text
  section, in this order; the annotated section has one line per pair of
  \<^verbatim>\<open>zip(text_blocks, confidences)\<close>, numbered from 1.
\<close>

theorem format_text_blocks_sections:
  "format_text_blocks [] cs = Inr []
   \<and> (ts \<noteq> [] \<longrightarrow>
        format_text_blocks (map PyStr ts) cs
          = Inr (join_lines (detailed_lines 1 (zip ts cs)) @ separator @ join_lines ts)
        \<and> length (detailed_lines 1 (zip ts cs)) = min (length ts) (length cs)
        \<and> (\<forall>i < min (length ts) (length cs).
              detailed_lines 1 (zip ts cs) ! i = block_line (Suc i) (ts ! i) (cs ! i)))"
  by (simp add: format_text_blocks_strs detailed_lines_length detailed_lines_nth)
     (simp add: format_text_blocks_def)

text \<open>An instance: the two texts of the batch scenario.\<close>

theorem format_text_blocks_sections_witness:
  "[''A'', ''B''] \<noteq> []
   \<and> format_text_blocks (map PyStr [''A'', ''B'']) [9 / 10, 8 / 10]
       = Inr (join_lines [''[Block 1] (conf: 0.90): A'', ''[Block 2] (conf: 0.80): B'']
              @ separator @ join_lines [''A'', ''B''])"
proof -
  have "detailed_lines 1 (zip [''A'', ''B''] [9 / 10, 8 / 10])
          = [''[Block 1] (conf: 0.90): A'', ''[Block 2] (conf: 0.80): B'']"
    by code_simp
  with format_text_blocks_sections [of "[9 / 10, 8 / 10]" "[''A'', ''B'']"] show ?thesis
    by simp
qed

text \<open>The claim as written wants the separator also for the empty list; the text returned
  there is empty and holds no separator.\<close>

theorem format_text_blocks_sections_counterexample:
  "returned (format_text_blocks [] []) = Some [] \<and> after_first separator [] = None"
  by (simp add: format_text_blocks_def returned_def separator_def)

section \<open>Reading the texts back\<close>

text \<open>
  C4 (as the code has it). For every non-empty list of detection texts none of which
  contains a line break, and whatever the confidences, splitting what follows the first
  separator of the formatted text at line breaks gives the original texts in their
  order.
\<close>

theorem plain_text_round_trip:
  assumes "ts \<noteq> []" and "\<forall>t \<in> set ts. CHR 0x0A \<notin> set t"
  shows "round_trip (map PyStr ts) cs = Some ts"
proof -
  have "\<And>p. p \<in> set (zip ts cs) \<Longrightarrow> CHR 0x0A \<notin> set (fst p)"
    using assms(2) by (auto dest: set_zip_leftD)
  then have "\<And>l. l \<in> set (detailed_lines 1 (zip ts cs)) \<Longrightarrow> CHR 0x0A \<notin> set l \<and> l \<noteq> []"
    by (rule detailed_lines_ok)
  then have "after_first separator
               (join_lines (detailed_lines 1 (zip ts cs)) @ separator @ join_lines ts)
             = Some (join_lines ts)"
    by (rule after_first_join_lines)
  moreover have "split_nl (join_lines ts) = ts"
    using assms by (intro split_nl_join_lines) simp_all
  ultimately show ?thesis
    using assms(1) by (simp add: round_trip_def returned_def parse_plain_text_def
        format_text_blocks_strs)
qed

text \<open>An instance: the two texts of the batch scenario.\<close>

theorem plain_text_round_trip_witness:
  "[''A'', ''B''] \<noteq> [] \<and> round_trip [PyStr ''A'', PyStr ''B''] [9 / 10, 8 / 10] = Some [''A'', ''B'']"
proof -
  have a: "[''A'', ''B''] \<noteq> []" by simp
  have b: "\<forall>t \<in> set [''A'', ''B'']. CHR 0x0A \<notin> set t" by simp
  from plain_text_round_trip [OF a b, of "[9 / 10, 8 / 10]"] show ?thesis by simp
qed

text \<open>The claim as written fails for the empty list, whose formatted text is empty and has
  no plain-text section, and for a text with a line break, which comes back as two.\<close>

theorem plain_text_round_trip_counterexample:
  "round_trip [] [] = None
   \<and> round_trip [PyStr [CHR ''a'', CHR 0x0A, CHR ''b'']] [1] = Some [''a'', ''b'']"
proof -
  have "round_trip [] [] = None"
    by (simp add: round_trip_def returned_def format_text_blocks_def parse_plain_text_def
        separator_def)
  moreover have "round_trip [PyStr [CHR ''a'', CHR 0x0A, CHR ''b'']] [1] = Some [''a'', ''b'']"
    by code_simp
  ultimately show ?thesis by simp
qed

section \<open>Unsupported extensions\<close>

text \<open>
  C5 (as the code has it). \<^verbatim>\<open>load_data\<close> tests each file in turn, first for existence and
  then for its extension. When the loop reaches a file that exists and whose extension,
  in lower case, is outside the supported set, it raises \<^verbatim>\<open>ValueError\<close> and the engine
  is invoked neither for this file nor for a later one: the call log is unchanged. In
  particular this is the outcome for a single path, and for the first path of a list,
  with an empty call log. A path that does not exist raises \<^verbatim>\<open>FileNotFoundError\<close>
  before its extension is looked at.
\<close>

theorem unsupported_extension_rejected:
  assumes "exists file_path" and "str_lower (suffix file_path) \<notin> supported_formats"
  shows "load_files self P extra_info (file_path # files) calls documents = (calls, Inl ValueError)
       \<and> load_data self P (One file_path) extra_info = ([], Inl ValueError)
       \<and> load_data self P (Many (file_path # files)) extra_info = ([], Inl ValueError)"
  using assms by (simp add: load_data_def)

text \<open>An instance: an existing file \<^verbatim>\<open>scan.GIF\<close>.\<close>

theorem unsupported_extension_rejected_witness:
  "exists gif_path \<and> str_lower (suffix gif_path) \<notin> supported_formats
   \<and> load_data demo_reader no_parser (One gif_path) None = ([], Inl ValueError)"
proof -
  have a: "exists gif_path" by (simp add: gif_path_def)
  have b: "str_lower (suffix gif_path) \<notin> supported_formats"
    by (simp add: gif_path_def lower_GIF gif_not_supported)
  from unsupported_extension_rejected [OF a b, of demo_reader no_parser None] a b
  show ?thesis by simp
qed

text \<open>The claim as written promises \<^verbatim>\<open>ValueError\<close> for every path with an unsupported
  extension; for a \<^verbatim>\<open>.gif\<close> path that does not exist the call raises
  \<^verbatim>\<open>FileNotFoundError\<close> instead.\<close>

theorem unsupported_extension_counterexample:
  "str_lower (suffix missing_gif) \<notin> supported_formats
   \<and> load_data demo_reader no_parser (One missing_gif) None = ([], Inl FileNotFoundError)"
  by (simp add: load_data_def missing_gif_def lower_gif gif_not_supported)

section \<open>The batch scenario\<close>

text \<open>
  C6. The raw result \<^verbatim>\<open>[{"rec_texts": ["A","B"], "rec_scores": [0.9, 0.8]}]\<close> gives exactly
  two detections, the stored mean confidence \<open>0.85\<close>, and a formatted text with the line
  \<^verbatim>\<open>[Block 1] (conf: 0.90): A\<close>.
\<close>

theorem batch_scenario:
  "detections P raw_batch =
     Inr [\<lparr>det_text = PyStr ''A'', confidence = 9 / 10, bbox = PyNone, block_index = 0\<rparr>,
          \<lparr>det_text = PyStr ''B'', confidence = 8 / 10, bbox = PyNone, block_index = 1\<rparr>]
   \<and> meta_of (process_ocr_result self P raw_batch fp None) ''num_text_blocks''
       = Some (PyInt 2)
   \<and> meta_of (process_ocr_result self P raw_batch fp None) ''avg_confidence''
       = Some (PyFloat (85 / 100))
   \<and> (\<exists>body. text_of (process_ocr_result self P raw_batch fp None) = Some body
         \<and> ''[Block 1] (conf: 0.90): A'' \<in> set (split_nl body))"
proof -
  have "py_round (avg_of [9 / 10, 8 / 10]) 4 = 85 / 100"
    by code_simp
  moreover have "''[Block 1] (conf: 0.90): A''
      \<in> set (split_nl (''[Block 1] (conf: 0.90): A'' @ [CHR 0x0A] @ ''[Block 2] (conf: 0.80): B''
          @ separator @ ''A'' @ [CHR 0x0A] @ ''B''))"
    by (simp add: separator_def heading_def)
  ultimately show ?thesis
    by (simp add: detections_raw_batch process_raw_batch meta_of_def text_of_def
        computed_metadata_stats)
qed

section \<open>The flat shape\<close>


section \<open>The average similarity of the benchmark\<close>

text \<open>
  C8. In \<^verbatim>\<open>evaluate_splitter\<close> and in \<^verbatim>\<open>evaluate_sentence_window_splitter\<close>, when the
  collaborators return, every returned source record carries a score and the sum of the
  scores stays in the finite range of the floats, the call returns its results, and the
  reported \<^verbatim>\<open>avg_similarity\<close> is the arithmetic mean of the scores as float arithmetic
  computes it: the scores added from left to right, the sum divided by their number. It
  is \<open>0\<close>, and no error, when the query returns no source record.
\<close>

theorem average_similarity_is_mean:
  assumes "\<forall>n \<in> set (source_nodes resp). score n \<noteq> None"
    and "sums_finite 0 (map (\<lambda>n. the (score n)) (source_nodes resp))"
    and "run_query nodes query = Inr resp"
  shows "(get_nodes documents = Inr nodes \<longrightarrow>
            (\<exists>r. evaluate_splitter get_nodes run_query start_time end_time documents query cname
                   = Inr r
               \<and> avg_similarity r
                   = (if source_nodes resp = [] then 0
                      else fdiv (py_sum (map (\<lambda>n. the (score n)) (source_nodes resp)))
                             (of_nat (length (source_nodes resp))))))
       \<and> (base_splitter documents = Inr base_nodes \<and> build_window_nodes base_nodes = Inr nodes \<longrightarrow>
            (\<exists>r. evaluate_sentence_window_splitter base_splitter build_window_nodes run_query
                     start_time end_time documents query cname = Inr r
               \<and> avg_similarity r
                   = (if source_nodes resp = [] then 0
                      else fdiv (py_sum (map (\<lambda>n. the (score n)) (source_nodes resp)))
                             (of_nat (length (source_nodes resp))))))"
proof -
  have scored: "\<And>n. n \<in> set (source_nodes resp) \<Longrightarrow> score n \<noteq> None"
    using assms(1) by blast
  have p: "print_sources (source_nodes resp) = Inr ()"
    using scored by (rule print_sources_scored)
  from make_results_scored [OF scored, where cname = cname and k = "length nodes"
      and elapsed = "end_time - start_time"]
  obtain r where r: "make_results cname (length nodes) (end_time - start_time) resp = Inr r"
    and avg: "avg_similarity r
               = (if source_nodes resp = [] then 0
                  else fdiv (py_sum (map (\<lambda>n. the (score n)) (source_nodes resp)))
                         (of_nat (length (source_nodes resp))))"
    by blast
  show ?thesis
    using assms(3) p r avg
    by (simp add: evaluate_splitter_def evaluate_sentence_window_splitter_def)
qed

text \<open>Instances: a query with two sources of scores \<^verbatim>\<open>0.9\<close> and \<^verbatim>\<open>0.8\<close>, whose float mean
  is \<^verbatim>\<open>0.8500000000000001\<close>, and a query without sources, for both functions.\<close>

theorem average_similarity_is_mean_witness:
  "sums_finite 0 [9 / 10, 8 / 10]
   \<and> (\<exists>r. evaluate_splitter demo_splitter demo_query 0 1 [] ''q'' ''cfg'' = Inr r
        \<and> avg_similarity r = 1914029841632461 / 2251799813685248)
   \<and> (\<exists>r. evaluate_sentence_window_splitter demo_splitter demo_window demo_query 0 1 [] ''q'' ''cfg''
          = Inr r \<and> avg_similarity r = 1914029841632461 / 2251799813685248)
   \<and> (\<exists>r. evaluate_splitter demo_splitter empty_query 0 1 [] ''q'' ''cfg'' = Inr r
        \<and> avg_similarity r = 0)
   \<and> (\<exists>r. evaluate_sentence_window_splitter demo_splitter demo_window empty_query 0 1 [] ''q'' ''cfg''
          = Inr r \<and> avg_similarity r = 0)"
proof -
  have s: "\<forall>n \<in> set (source_nodes \<lparr>response = ''answer'', source_nodes = demo_sources\<rparr>).
             score n \<noteq> None"
    by (simp add: demo_sources_def del: not_None_eq)
  have sf: "sums_finite 0 (map (\<lambda>n. the (score n))
              (source_nodes \<lparr>response = ''answer'', source_nodes = demo_sources\<rparr>))"
    using demo_scores_finite by (simp add: demo_sources_def)
  have q: "demo_query [] ''q'' = Inr \<lparr>response = ''answer'', source_nodes = demo_sources\<rparr>"
    by (simp add: demo_query_def)
  have e: "\<forall>n \<in> set (source_nodes \<lparr>response = ''answer'', source_nodes = []\<rparr>). score n \<noteq> None"
    by simp
  have ef: "sums_finite 0 (map (\<lambda>n. the (score n))
              (source_nodes \<lparr>response = ''answer'', source_nodes = []\<rparr>))"
    using sums_finite_unit [of "[]"] by simp
  have eq: "empty_query [] ''q'' = Inr \<lparr>response = ''answer'', source_nodes = []\<rparr>"
    by (simp add: empty_query_def)
  have m: "fdiv (py_sum (map (\<lambda>n. the (score n)) demo_sources)) (of_nat (length demo_sources))
             = 1914029841632461 / 2251799813685248"
    using demo_scores_mean by (simp add: demo_sources_def)
  have ne: "demo_sources \<noteq> []" by (simp add: demo_sources_def)
  note a = average_similarity_is_mean [where run_query = demo_query and nodes = "[]"
      and query = "''q''" and resp = "\<lparr>response = ''answer'', source_nodes = demo_sources\<rparr>"
      and get_nodes = demo_splitter and documents = "[]" and base_splitter = demo_splitter
      and build_window_nodes = demo_window and base_nodes = "[]" and start_time = 0
      and end_time = 1 and cname = "''cfg''", OF s sf q]
  note b = average_similarity_is_mean [where run_query = empty_query and nodes = "[]"
      and query = "''q''" and resp = "\<lparr>response = ''answer'', source_nodes = []\<rparr>"
      and get_nodes = demo_splitter and documents = "[]" and base_splitter = demo_splitter
      and build_window_nodes = demo_window and base_nodes = "[]" and start_time = 0
      and end_time = 1 and cname = "''cfg''", OF e ef eq]
  from a b m ne demo_scores_finite show ?thesis
    by (simp add: demo_splitter_def demo_window_def)
qed

section \<open>Empty texts in the flat shape\<close>

text \<open>
  C9. In a flat result, a list of strings, the empty strings are skipped without a
  message: the detections are the non-empty texts, \<^verbatim>\<open>num_text_blocks\<close> is their number,
  and it is smaller than the length of the raw list as soon as the list holds an empty
  string.
\<close>

theorem flat_shape_skips_empty_texts:
  "(\<exists>ds. detections P (PyList (map PyStr ts)) = Inr ds
      \<and> map det_text ds = map PyStr (filter (\<lambda>t. t \<noteq> []) ts))
   \<and> meta_of (process_ocr_result self P (PyList (map PyStr ts)) fp None) ''num_text_blocks''
       = Some (PyInt (int (length (filter (\<lambda>t. t \<noteq> []) ts))))
   \<and> ([] \<in> set ts \<longrightarrow> length (filter (\<lambda>t. t \<noteq> []) ts) < length ts)"
proof -
  let ?keep = "filter (\<lambda>t. t \<noteq> []) ts"
  have "\<exists>ds. detections P (PyList (map PyStr ts)) = Inr ds \<and> map det_text ds = map PyStr ?keep"
  proof (cases ts)
    case Nil
    then show ?thesis by (simp add: detections_def)
  next
    case (Cons t ts')
    let ?xs = "PyStr t # map PyStr ts'"
    have "map snd (filter (\<lambda>p. py_truthy (snd p)) (enumerate_from0 ?xs)) = filter py_truthy ?xs"
      by (rule flat_texts)
    moreover have "filter py_truthy ?xs = map PyStr ?keep"
      using truthy_strs [of ts] Cons by simp
    ultimately show ?thesis
      using detections_flat [of P t "map PyStr ts'"] Cons by (simp add: comp_def)
  qed
  then obtain ds where d: "detections P (PyList (map PyStr ts)) = Inr ds"
    and t: "map det_text ds = map PyStr ?keep" by blast
  obtain body where "format_text_blocks (map det_text ds) (map confidence ds) = Inr body"
    using format_text_blocks_strs_returns [of ?keep] t by auto
  from process_ocr_result_returns [OF d this, where self = self and fp = fp and extra = None]
  have "meta_of (process_ocr_result self P (PyList (map PyStr ts)) fp None) ''num_text_blocks''
          = Some (PyInt (int (length ds)))"
    by (simp add: meta_of_def computed_metadata_stats)
  moreover have "length ds = length ?keep"
    using t by (metis length_map)
  moreover have "[] \<in> set ts \<longrightarrow> length ?keep < length ts"
    by (auto intro: length_filter_less)
  ultimately show ?thesis using d t by auto
qed

text \<open>An instance: four texts, two of them empty.\<close>

theorem flat_shape_skips_empty_texts_witness:
  "[] \<in> set [''A'', '''', ''C'', '''']
   \<and> meta_of (process_ocr_result demo_reader no_parser raw_flat_gaps demo_path None)
        ''num_text_blocks'' = Some (PyInt 2)
   \<and> length (filter (\<lambda>t. t \<noteq> []) [''A'', '''', ''C'', '''']) < length [''A'', '''', ''C'', '''']"
  using flat_shape_skips_empty_texts [of no_parser "[''A'', '''', ''C'', '''']" demo_reader demo_path]
  by (simp add: raw_flat_gaps_def)

section \<open>Rounded statistics and extra metadata\<close>

text \<open>
  C10. When the call returns and the sum of the confidences stays in the finite range of
  the floats, the metadata computed by \<^verbatim>\<open>_process_ocr_result\<close> holds the mean, minimum
  and maximum confidence rounded to 4 decimal places, where the mean is the float that
  the code computes (the confidences added from left to right, the sum divided by their
  number): each stored value is the float written as a whole number of ten-thousandths,
  the one within half a ten-thousandth of the float it rounds, ties going to the even
  one. Extra metadata is merged last: under every key the caller supplies, the caller's
  value is returned, and under every other key the computed value.
\<close>

theorem metadata_rounded_and_merged:
  assumes "detections P raw = Inr ds"
    and "\<not> isl (process_ocr_result self P raw fp None)"
    and "sums_finite 0 (map confidence ds)"
  shows "meta_of (process_ocr_result self P raw fp None) ''avg_confidence''
           = Some (PyFloat (py_round (avg_of (map confidence ds)) 4))
       \<and> avg_of (map confidence ds)
           = (if ds = [] then 0
              else fdiv (foldl fadd 0 (map confidence ds)) (of_nat (length ds)))
       \<and> meta_of (process_ocr_result self P raw fp None) ''min_confidence''
           = Some (PyFloat (if ds = [] then 0 else py_round (py_min (map confidence ds)) 4))
       \<and> meta_of (process_ocr_result self P raw fp None) ''max_confidence''
           = Some (PyFloat (if ds = [] then 0 else py_round (py_max (map confidence ds)) 4))
       \<and> py_round q 4 = of_int (round_half_even (binary64 q * 10 ^ 4)) / 10 ^ 4
       \<and> \<bar>py_round q 4 - binary64 q\<bar> \<le> 1 / (2 * 10 ^ 4)
       \<and> meta_of (process_ocr_result self P raw fp (Some extra)) k
           = (case extra k of
                Some v \<Rightarrow> Some v
              | None \<Rightarrow> meta_of (process_ocr_result self P raw fp None) k)"
proof -
  let ?cs = "map confidence ds"
  let ?md = "computed_metadata self fp (length ds) ?cs"
  from process_ocr_result_not_raised [OF assms(1,2)]
  obtain body where f: "format_text_blocks (map det_text ds) ?cs = Inr body" by blast
  have none: "process_ocr_result self P raw fp None = Inr (body, ?md)"
    using process_ocr_result_returns [OF assms(1) f, where self = self and fp = fp
        and extra = None] by simp
  have some: "process_ocr_result self P raw fp (Some extra) = Inr (body, ?md ++ extra)"
    using process_ocr_result_returns [OF assms(1) f, where self = self and fp = fp
        and extra = "Some extra"] by simp
  have "meta_of (process_ocr_result self P raw fp (Some extra)) k
           = (case extra k of
                Some v \<Rightarrow> Some v
              | None \<Rightarrow> meta_of (process_ocr_result self P raw fp None) k)"
    by (simp add: none some meta_of_def map_add_def split: option.splits)
  moreover have "meta_of (process_ocr_result self P raw fp None) ''avg_confidence''
           = Some (PyFloat (py_round (avg_of ?cs) 4))"
    by (simp add: none meta_of_def computed_metadata_stats)
  moreover have "avg_of ?cs
           = (if ds = [] then 0 else fdiv (foldl fadd 0 ?cs) (of_nat (length ds)))"
    by (simp add: avg_of_def py_sum_def)
  moreover have "meta_of (process_ocr_result self P raw fp None) ''min_confidence''
           = Some (PyFloat (if ds = [] then 0 else py_round (py_min ?cs) 4))"
    by (simp add: none meta_of_def computed_metadata_stats)
  moreover have "meta_of (process_ocr_result self P raw fp None) ''max_confidence''
           = Some (PyFloat (if ds = [] then 0 else py_round (py_max ?cs) 4))"
    by (simp add: none meta_of_def computed_metadata_stats)
  moreover have "py_round q 4 = of_int (round_half_even (binary64 q * 10 ^ 4)) / 10 ^ 4"
    by (simp only: py_round_def)
  moreover have "\<bar>py_round q 4 - binary64 q\<bar> \<le> 1 / (2 * 10 ^ 4)"
    by (rule py_round_close)
  ultimately show ?thesis by blast
qed

text \<open>An instance: five confidences \<^verbatim>\<open>0.03125, 0, 0, 0, 0\<close>. Their float mean
  \<^verbatim>\<open>0.03125 / 5\<close> is the float just above \<open>1/160\<close>, stored as \<^verbatim>\<open>0.0063\<close> (the exact mean
  \<open>1/160\<close> would give \<^verbatim>\<open>0.0062\<close>); the maximum \<^verbatim>\<open>0.03125\<close> is a tie, stored as \<^verbatim>\<open>0.0312\<close>.
  Extra metadata with the keys \<^verbatim>\<open>source\<close> and \<^verbatim>\<open>avg_confidence\<close> adds the first and
  replaces the second, and leaves \<^verbatim>\<open>max_confidence\<close> as computed.\<close>

theorem metadata_rounded_and_merged_witness:
  "\<not> isl (process_ocr_result demo_reader no_parser raw_tie demo_path None)
   \<and> sums_finite 0 [1 / 32, 0, 0, 0, 0]
   \<and> avg_of [1 / 32, 0, 0, 0, 0] = 3602879701896397 / 576460752303423488
   \<and> meta_of (process_ocr_result demo_reader no_parser raw_tie demo_path None)
        ''avg_confidence'' = Some (PyFloat (63 / 10000))
   \<and> meta_of (process_ocr_result demo_reader no_parser raw_tie demo_path None)
        ''min_confidence'' = Some (PyFloat 0)
   \<and> meta_of (process_ocr_result demo_reader no_parser raw_tie demo_path None)
        ''max_confidence'' = Some (PyFloat (312 / 10000))
   \<and> meta_of (process_ocr_result demo_reader no_parser raw_tie demo_path (Some demo_extra))
        ''avg_confidence'' = Some (PyStr ''n/a'')
   \<and> meta_of (process_ocr_result demo_reader no_parser raw_tie demo_path (Some demo_extra))
        ''source'' = Some (PyStr ''scanner'')
   \<and> meta_of (process_ocr_result demo_reader no_parser raw_tie demo_path (Some demo_extra))
        ''max_confidence'' = Some (PyFloat (312 / 10000))"
proof -
  have r: "\<not> isl (process_ocr_result demo_reader no_parser raw_tie demo_path None)"
    by (rule process_raw_tie_returns)
  have sf: "sums_finite 0 (map confidence
      [\<lparr>det_text = PyStr ''A'', confidence = 1 / 32, bbox = PyNone, block_index = 0\<rparr>,
       \<lparr>det_text = PyStr ''B'', confidence = 0, bbox = PyNone, block_index = 1\<rparr>,
       \<lparr>det_text = PyStr ''C'', confidence = 0, bbox = PyNone, block_index = 2\<rparr>,
       \<lparr>det_text = PyStr ''D'', confidence = 0, bbox = PyNone, block_index = 3\<rparr>,
       \<lparr>det_text = PyStr ''E'', confidence = 0, bbox = PyNone, block_index = 4\<rparr>])"
    using raw_tie_finite by simp
  have ab: "py_round (avg_of [1 / 32, 0, 0, 0, 0]) 4 = 63 / 10000"
    by (simp only: avg_raw_tie round_avg_raw_tie)
  note t = metadata_rounded_and_merged [OF detections_raw_tie r sf, where extra = demo_extra]
  have "meta_of (process_ocr_result demo_reader no_parser raw_tie demo_path None)
        ''avg_confidence'' = Some (PyFloat (63 / 10000))"
    using t [of 0 "''source''"] ab by simp
  moreover have "meta_of (process_ocr_result demo_reader no_parser raw_tie demo_path None)
        ''min_confidence'' = Some (PyFloat 0)"
    using t [of 0 "''source''"] round_min_raw_tie by simp
  moreover have "meta_of (process_ocr_result demo_reader no_parser raw_tie demo_path None)
        ''max_confidence'' = Some (PyFloat (312 / 10000))"
    using t [of 0 "''source''"] round_max_raw_tie by simp
  moreover have "meta_of (process_ocr_result demo_reader no_parser raw_tie demo_path (Some demo_extra))
        ''avg_confidence'' = Some (PyStr ''n/a'')"
    using t [of 0 "''avg_confidence''"] by (simp add: demo_extra_def)
  moreover have "meta_of (process_ocr_result demo_reader no_parser raw_tie demo_path (Some demo_extra))
        ''source'' = Some (PyStr ''scanner'')"
    using t [of 0 "''source''"] by (simp add: demo_extra_def)
  moreover have "meta_of (process_ocr_result demo_reader no_parser raw_tie demo_path (Some demo_extra))
        ''max_confidence'' = Some (PyFloat (312 / 10000))"
    using t [of 0 "''max_confidence''"] round_max_raw_tie by (simp add: demo_extra_def)
  ultimately show ?thesis using r raw_tie_finite avg_raw_tie by simp
qed

end
